theory Spec2Isabelle
  imports Complex_Main "HOL-Library.Word" "HOL-Library.Multiset"
begin

chapter \<open>The inference gateway: model and properties\<close>

text \<open>
  A shallow embedding of the request pipeline of the ONNX inference server: the metric
  primitives (\<^verbatim>\<open>metrics/collector.hpp\<close>), the configuration record and its JSON
  form (\<^verbatim>\<open>utils/config.hpp\<close>), the session manager, the model registry and the
  batch executor (\<^verbatim>\<open>inference/*.hpp\<close>) and the inference handler
  (\<^verbatim>\<open>server/handlers.hpp\<close>).

  Conventions. The value of a C++ \<^verbatim>\<open>double\<close> or \<^verbatim>\<open>float\<close> is a rational number
  (infinities are written out where the code uses them); the rounded arithmetic of the
  histogram is a parameter, see there; \<^verbatim>\<open>int\<close>, \<^verbatim>\<open>uint32_t\<close>
  are \<open>32 word\<close>, \<^verbatim>\<open>int64_t\<close>, \<^verbatim>\<open>uint64_t\<close>, \<^verbatim>\<open>size_t\<close> are \<open>64 word\<close>, read with
  \<open>sint\<close> or \<open>unat\<close> as the C++ type is signed or not. A C++ exception is a value of
  type \<open>exn\<close> on the left of a sum. A reading of \<^verbatim>\<open>steady_clock::now()\<close> is a number of
  nanoseconds taken from a clock oracle.
\<close>

section \<open>Metric primitives\<close>

subsection \<open>Histogram\<close>

text \<open>The upper bound of a bucket: a finite double, or the +Inf of the last bucket.\<close>

datatype bound = Fin rat | PInf

fun le_bound :: "rat \<Rightarrow> bound \<Rightarrow> bool" where
  "le_bound v (Fin b) = (v \<le> b)"
| "le_bound v PInf = True"

record HistogramBucket =
  upper_bound :: bound
  bcount :: "64 word"

record Histogram =
  h_buckets :: "HistogramBucket list"
  h_count :: "64 word"
  h_sum :: "64 word"

text \<open>
  \<^verbatim>\<open>static_cast<uint64_t>(x)\<close> of a double: the fractional part is discarded (rounding
  towards zero). C++ defines the conversion only when the truncated value fits the
  type; outside that range the model wraps, and the statements about sums below are
  made for products that are not negative.
\<close>

definition trunc_zero :: "rat \<Rightarrow> int" where
  "trunc_zero x = (if 0 \<le> x then \<lfloor>x\<rfloor> else - \<lfloor>- x\<rfloor>)"

definition static_cast_u64 :: "rat \<Rightarrow> 64 word" where
  "static_cast_u64 x = word_of_int (trunc_zero x)"

text \<open>
  The histogram computes with doubles in two places: \<^verbatim>\<open>observe\<close> forms the product
  \<^verbatim>\<open>value * 1e9\<close>, and \<^verbatim>\<open>sum()\<close> converts the stored integer to a double and divides
  it by \<^verbatim>\<open>1e9\<close>. The machine rounds both results. They are not computed here: the
  two operations are parameters of the model.
\<close>

record double_arith =
  times_1e9 :: "rat \<Rightarrow> rat"
  ns_to_seconds :: "64 word \<Rightarrow> rat"

text \<open>The constructor: one bucket per given bound, in the given order, then +Inf.\<close>

definition new_bucket :: "bound \<Rightarrow> HistogramBucket" where
  "new_bucket b = \<lparr>upper_bound = b, bcount = 0\<rparr>"

definition Histogram_new :: "rat list \<Rightarrow> Histogram" where
  "Histogram_new buckets =
     \<lparr>h_buckets = map (\<lambda>b. new_bucket (Fin b)) buckets @ [new_bucket PInf],
      h_count = 0, h_sum = 0\<rparr>"

definition bump_bucket :: "rat \<Rightarrow> HistogramBucket \<Rightarrow> HistogramBucket" where
  "bump_bucket v b =
     (if le_bound v (upper_bound b) then b\<lparr>bcount := bcount b + 1\<rparr> else b)"

definition observe :: "double_arith \<Rightarrow> rat \<Rightarrow> Histogram \<Rightarrow> Histogram" where
  "observe fp v h =
     h\<lparr>h_sum := h_sum h + static_cast_u64 (times_1e9 fp v),
       h_count := h_count h + 1,
       h_buckets := map (bump_bucket v) (h_buckets h)\<rparr>"

definition hist_count :: "Histogram \<Rightarrow> 64 word" where
  "hist_count h = h_count h"

definition hist_sum :: "double_arith \<Rightarrow> Histogram \<Rightarrow> rat" where
  "hist_sum fp h = ns_to_seconds fp (h_sum h)"

text \<open>A sequence of \<^verbatim>\<open>observe\<close> calls, first value first.\<close>

fun observe_all :: "double_arith \<Rightarrow> rat list \<Rightarrow> Histogram \<Rightarrow> Histogram" where
  "observe_all fp [] h = h"
| "observe_all fp (v # vs) h = observe_all fp vs (observe fp v h)"

text \<open>
  What a histogram holds, written independently of \<open>observe\<close>: the nanoseconds
  stored for a value (the whole part of the product the machine formed), and the
  number of values under a bound.
\<close>

definition whole_ns :: "double_arith \<Rightarrow> rat \<Rightarrow> nat" where
  "whole_ns fp v = nat \<lfloor>times_1e9 fp v\<rfloor>"

definition total_ns :: "double_arith \<Rightarrow> rat list \<Rightarrow> nat" where
  "total_ns fp vs = sum_list (map (whole_ns fp) vs)"

definition count_under :: "bound \<Rightarrow> rat list \<Rightarrow> nat" where
  "count_under b vs = length (filter (\<lambda>v. le_bound v b) vs)"

text \<open>
  The arithmetic of the examples. Their values are small multiples of powers of two
  (\<open>1/4\<close>, \<open>3/2\<close>, \<open>2^-31\<close>), for which the double product with \<^verbatim>\<open>1e9\<close> is the
  exact product, and their sums in nanoseconds are integers whose quotient by
  \<^verbatim>\<open>1e9\<close> is a double (\<open>0\<close>, \<open>7/4\<close>): on them the machine's results are the exact
  ones.
\<close>

definition exact_arith :: double_arith where
  "exact_arith =
     \<lparr>times_1e9 = (\<lambda>v. v * 10 ^ 9), ns_to_seconds = (\<lambda>n. of_nat (unat n) / 10 ^ 9)\<rparr>"

section \<open>Tensors, requests and responses\<close>

text \<open>
  Every exception the pipeline meets derives from \<^verbatim>\<open>std::exception\<close>; the handlers
  tell the backend's \<^verbatim>\<open>Ort::Exception\<close> from the rest.
\<close>

datatype exn = OrtException string | StdException string

fun what :: "exn \<Rightarrow> string" where
  "what (OrtException m) = m"
| "what (StdException m) = m"

record TensorData =
  td_name :: string
  dtype :: string
  shape :: "64 word list"
  float_data :: "rat list"
  int_data :: "64 word list"
  raw_data :: "8 word list"

definition TensorData_new :: TensorData where
  "TensorData_new =
     \<lparr>td_name = [], dtype = ''float32'', shape = [], float_data = [], int_data = [],
      raw_data = []\<rparr>"

record InferenceRequest =
  model_name :: string
  request_id :: string
  inputs :: "TensorData list"
  req_enqueue_time :: nat

record InferenceResponse =
  outputs :: "TensorData list"
  inference_time_ms :: rat
  queue_time_ms :: rat
  error :: string
  success :: bool

definition InferenceResponse_new :: InferenceResponse where
  "InferenceResponse_new =
     \<lparr>outputs = [], inference_time_ms = 0, queue_time_ms = 0, error = [], success = True\<rparr>"

record ModelInfo =
  mi_name :: string
  version :: string
  path :: string
  loaded_at :: string
  input_names :: "string list"
  output_names :: "string list"
  input_shapes :: "64 word list list"
  output_shapes :: "64 word list list"
  input_types :: "string list"
  output_types :: "string list"

section \<open>The inference backend and the world outside\<close>

text \<open>
  ONNX Runtime is not part of the repository. Its element-type tags are an
  enumeration; a tensor value carries its shape and its elements; a session carries the
  signature the artifact declares. What the runtime computes, and when it fails, is a
  parameter of the model: the record \<open>World\<close> holds the session constructor, the two
  tensor constructors the code calls, \<^verbatim>\<open>Session::Run\<close>, the file modification time
  and the wall-clock timestamp.
\<close>

datatype ONNXTensorElementDataType =
  ELEM_UNDEFINED | ELEM_FLOAT | ELEM_UINT8 | ELEM_INT8 | ELEM_UINT16 | ELEM_INT16
  | ELEM_INT32 | ELEM_INT64 | ELEM_STRING | ELEM_BOOL | ELEM_FLOAT16 | ELEM_DOUBLE
  | ELEM_UINT32 | ELEM_UINT64 | ELEM_COMPLEX64 | ELEM_COMPLEX128 | ELEM_BFLOAT16

datatype OrtValue =
  FloatTensor "64 word list" "rat list"
  | Int64Tensor "64 word list" "64 word list"
  | Int32Tensor "64 word list" "32 word list"
  | OtherTensor ONNXTensorElementDataType "64 word list"

record OrtSession =
  session_id :: nat
  session_inputs :: "(string \<times> 64 word list \<times> ONNXTensorElementDataType) list"
  session_outputs :: "(string \<times> 64 word list \<times> ONNXTensorElementDataType) list"

record World =
  ort_open :: "string \<Rightarrow> exn + OrtSession"
  ort_create_float :: "rat list \<Rightarrow> 64 word list \<Rightarrow> exn + OrtValue"
  ort_create_int64 :: "64 word list \<Rightarrow> 64 word list \<Rightarrow> exn + OrtValue"
  ort_run :: "OrtSession \<Rightarrow> string list \<Rightarrow> OrtValue list \<Rightarrow> string list \<Rightarrow> exn + OrtValue list"
  fs_last_write_time :: "string \<Rightarrow> exn + nat"
  iso_timestamp :: string

text \<open>
  The steady clock: the \<open>n\<close>-th call of \<^verbatim>\<open>steady_clock::now()\<close> in a run returns
  \<open>clk n\<close> nanoseconds. A function that reads the clock takes the number of readings
  made so far and returns the number made after it.
\<close>

type_synonym clock = "nat \<Rightarrow> nat"

definition now :: "clock \<Rightarrow> nat \<Rightarrow> nat \<times> nat" where
  "now clk n = (clk n, Suc n)"

text \<open>\<^verbatim>\<open>duration<double, std::milli>(b - a).count()\<close>.\<close>

definition millis :: "nat \<Rightarrow> nat \<Rightarrow> rat" where
  "millis a b = (of_nat b - of_nat a) / 10 ^ 6"

section \<open>Session manager\<close>

fun onnx_type_to_string :: "ONNXTensorElementDataType \<Rightarrow> string" where
  "onnx_type_to_string ELEM_FLOAT = ''float32''"
| "onnx_type_to_string ELEM_DOUBLE = ''float64''"
| "onnx_type_to_string ELEM_INT32 = ''int32''"
| "onnx_type_to_string ELEM_INT64 = ''int64''"
| "onnx_type_to_string ELEM_INT8 = ''int8''"
| "onnx_type_to_string ELEM_UINT8 = ''uint8''"
| "onnx_type_to_string ELEM_INT16 = ''int16''"
| "onnx_type_to_string ELEM_UINT16 = ''uint16''"
| "onnx_type_to_string ELEM_BOOL = ''bool''"
| "onnx_type_to_string ELEM_STRING = ''string''"
| "onnx_type_to_string _ = ''unknown''"

text \<open>
  \<^verbatim>\<open>SessionManager::load_model\<close>: the session is opened and its signature read; an
  \<^verbatim>\<open>Ort::Exception\<close> is logged and thrown again. (A failure of one of the signature
  queries is a failure of \<open>ort_open\<close> here.)
\<close>

definition SessionManager_load_model ::
  "World \<Rightarrow> string \<Rightarrow> string \<Rightarrow> exn + (OrtSession \<times> ModelInfo)" where
  "SessionManager_load_model w pth nm =
     (case ort_open w pth of
        Inl e \<Rightarrow> Inl e
      | Inr s \<Rightarrow>
          Inr (s, \<lparr>mi_name = nm, version = ''1'', path = pth, loaded_at = iso_timestamp w,
                   input_names = map fst (session_inputs s),
                   output_names = map fst (session_outputs s),
                   input_shapes = map (fst \<circ> snd) (session_inputs s),
                   output_shapes = map (fst \<circ> snd) (session_outputs s),
                   input_types = map (onnx_type_to_string \<circ> snd \<circ> snd) (session_inputs s),
                   output_types = map (onnx_type_to_string \<circ> snd \<circ> snd) (session_outputs s)\<rparr>))"

text \<open>
  The loop over \<^verbatim>\<open>request.inputs\<close> in \<^verbatim>\<open>run_inference\<close>: the name of every input is
  pushed; a tensor is pushed when \<^verbatim>\<open>float_data\<close> is not empty, else when \<^verbatim>\<open>int_data\<close>
  is not empty, else not at all.
\<close>

fun prepare_inputs ::
  "World \<Rightarrow> TensorData list \<Rightarrow> string list \<times> OrtValue list \<Rightarrow> exn + (string list \<times> OrtValue list)"
  where
  "prepare_inputs w [] acc = Inr acc"
| "prepare_inputs w (inp # rest) (names, tensors) =
     (if float_data inp \<noteq> [] then
        (case ort_create_float w (float_data inp) (shape inp) of
           Inl e \<Rightarrow> Inl e
         | Inr t \<Rightarrow> prepare_inputs w rest (names @ [td_name inp], tensors @ [t]))
      else if int_data inp \<noteq> [] then
        (case ort_create_int64 w (int_data inp) (shape inp) of
           Inl e \<Rightarrow> Inl e
         | Inr t \<Rightarrow> prepare_inputs w rest (names @ [td_name inp], tensors @ [t]))
      else prepare_inputs w rest (names @ [td_name inp], tensors))"

text \<open>One output tensor decoded: float, int64 and int32 elements are copied.\<close>

fun extract_output :: "string \<Rightarrow> OrtValue \<Rightarrow> TensorData" where
  "extract_output nm (FloatTensor sh d) =
     TensorData_new\<lparr>td_name := nm, shape := sh, float_data := d, dtype := ''float32''\<rparr>"
| "extract_output nm (Int64Tensor sh d) =
     TensorData_new\<lparr>td_name := nm, shape := sh, int_data := d, dtype := ''int64''\<rparr>"
| "extract_output nm (Int32Tensor sh d) =
     TensorData_new\<lparr>td_name := nm, shape := sh, int_data := map scast d, dtype := ''int32''\<rparr>"
| "extract_output nm (OtherTensor ty sh) =
     TensorData_new\<lparr>td_name := nm, shape := sh\<rparr>"

text \<open>
  The \<^verbatim>\<open>try\<close> block of \<^verbatim>\<open>run_inference\<close>. \<^verbatim>\<open>Session::Run\<close> returns one value for
  each output name it is given, so the \<open>i\<close>-th value is named by the \<open>i\<close>-th name.
\<close>

definition run_inference_try ::
  "World \<Rightarrow> OrtSession \<Rightarrow> InferenceRequest \<Rightarrow> ModelInfo \<Rightarrow> exn + TensorData list" where
  "run_inference_try w s request mi =
     (case prepare_inputs w (inputs request) ([], []) of
        Inl e \<Rightarrow> Inl e
      | Inr (in_names, in_tensors) \<Rightarrow>
          (case ort_run w s in_names in_tensors (output_names mi) of
             Inl e \<Rightarrow> Inl e
           | Inr output_tensors \<Rightarrow>
               Inr (map (\<lambda>(nm, t). extract_output nm t) (zip (output_names mi) output_tensors))))"

text \<open>
  What the block hands to \<^verbatim>\<open>Session::Run\<close>, said without the loop: the names of all
  inputs, and the tensors made for the inputs that carry float or integer data.
\<close>

definition has_data :: "TensorData \<Rightarrow> bool" where
  "has_data inp = (float_data inp \<noteq> [] \<or> int_data inp \<noteq> [])"

definition create_tensor :: "World \<Rightarrow> TensorData \<Rightarrow> exn + OrtValue" where
  "create_tensor w inp =
     (if float_data inp \<noteq> [] then ort_create_float w (float_data inp) (shape inp)
      else ort_create_int64 w (int_data inp) (shape inp))"

definition names_passed :: "InferenceRequest \<Rightarrow> string list" where
  "names_passed req = map td_name (inputs req)"

definition tensors_passed :: "World \<Rightarrow> InferenceRequest \<Rightarrow> OrtValue list" where
  "tensors_passed w req = map (projr \<circ> create_tensor w) (filter has_data (inputs req))"

text \<open>
  \<^verbatim>\<open>SessionManager::run_inference\<close>: an \<^verbatim>\<open>Ort::Exception\<close> of the block becomes a
  response with \<^verbatim>\<open>success = false\<close>; any other exception leaves the function.
\<close>

definition SessionManager_run_inference ::
  "World \<Rightarrow> clock \<Rightarrow> OrtSession \<Rightarrow> InferenceRequest \<Rightarrow> ModelInfo \<Rightarrow> nat
     \<Rightarrow> (exn + InferenceResponse) \<times> nat" where
  "SessionManager_run_inference w clk s request mi n =
     (let (t_start, n1) = now clk n in
      case run_inference_try w s request mi of
        Inr outs \<Rightarrow>
          (let (t_end, n2) = now clk n1 in
           (Inr (InferenceResponse_new\<lparr>outputs := outs, success := True,
                   inference_time_ms := millis t_start t_end\<rparr>), n2))
      | Inl (OrtException m) \<Rightarrow>
          (let (t_end, n2) = now clk n1 in
           (Inr (InferenceResponse_new\<lparr>success := False, error := m,
                   inference_time_ms := millis t_start t_end\<rparr>), n2))
      | Inl e \<Rightarrow> (Inl e, n1))"

section \<open>Model registry\<close>

record ModelEntry =
  session :: OrtSession
  info :: ModelInfo
  last_modified :: nat

type_synonym models = "string \<rightharpoonup> ModelEntry"

definition has :: "models \<Rightarrow> string \<Rightarrow> bool" where
  "has reg nm = (reg nm \<noteq> None)"

definition get :: "models \<Rightarrow> string \<Rightarrow> ModelInfo option" where
  "get reg nm = map_option info (reg nm)"

text \<open>
  \<^verbatim>\<open>ModelRegistry::load_model\<close>: the entry is stored only after the session manager
  has returned and the modification time has been read; any exception before that is
  caught and the function returns \<^verbatim>\<open>false\<close>.
\<close>

definition ModelRegistry_load_model ::
  "World \<Rightarrow> models \<Rightarrow> string \<Rightarrow> string \<Rightarrow> bool \<times> models" where
  "ModelRegistry_load_model w reg pth nm =
     (case SessionManager_load_model w pth nm of
        Inl e \<Rightarrow> (False, reg)
      | Inr (s, mi) \<Rightarrow>
          (case fs_last_write_time w pth of
             Inl e \<Rightarrow> (False, reg)
           | Inr t \<Rightarrow> (True, reg(nm \<mapsto> \<lparr>session = s, info = mi, last_modified = t\<rparr>))))"

definition reload :: "World \<Rightarrow> models \<Rightarrow> string \<Rightarrow> bool \<times> models" where
  "reload w reg nm =
     (case reg nm of
        None \<Rightarrow> (False, reg)
      | Some entry \<Rightarrow> ModelRegistry_load_model w reg (path (info entry)) nm)"

definition ModelRegistry_run_inference ::
  "World \<Rightarrow> clock \<Rightarrow> models \<Rightarrow> InferenceRequest \<Rightarrow> nat \<Rightarrow> (exn + InferenceResponse) \<times> nat" where
  "ModelRegistry_run_inference w clk reg request n =
     (case reg (model_name request) of
        None \<Rightarrow>
          (Inr (InferenceResponse_new\<lparr>success := False,
                  error := ''Model not found: '' @ model_name request\<rparr>), n)
      | Some entry \<Rightarrow> SessionManager_run_inference w clk (session entry) request (info entry) n)"

section \<open>Example backends\<close>

text \<open>
  Concrete backends for the examples below: one whose model returns its inputs, one
  whose \<^verbatim>\<open>Session::Run\<close> fails, one that cannot open any artifact.
\<close>

definition echo_session :: OrtSession where
  "echo_session =
     \<lparr>session_id = 0, session_inputs = [(''x'', [1, 2], ELEM_FLOAT)],
      session_outputs = [(''y'', [1, 2], ELEM_FLOAT)]\<rparr>"

definition world_ok :: World where
  "world_ok =
     \<lparr>ort_open = (\<lambda>p. Inr echo_session),
      ort_create_float = (\<lambda>d sh. Inr (FloatTensor sh d)),
      ort_create_int64 = (\<lambda>d sh. Inr (Int64Tensor sh d)),
      ort_run = (\<lambda>s names tensors outs. Inr (take (length outs) tensors)),
      fs_last_write_time = (\<lambda>p. Inr 7),
      iso_timestamp = ''2024-01-01T00:00:00Z''\<rparr>"

definition world_failing_run :: World where
  "world_failing_run = world_ok\<lparr>ort_run := (\<lambda>s names tensors outs. Inl (OrtException ''invalid input''))\<rparr>"

definition world_failing_open :: World where
  "world_failing_open = world_ok\<lparr>ort_open := (\<lambda>p. Inl (OrtException ''bad model''))\<rparr>"

definition echo_info :: ModelInfo where
  "echo_info =
     \<lparr>mi_name = ''m'', version = ''1'', path = ''models/m.onnx'',
      loaded_at = ''2024-01-01T00:00:00Z'', input_names = [''x''], output_names = [''y''],
      input_shapes = [[1, 2]], output_shapes = [[1, 2]],
      input_types = [''float32''], output_types = [''float32'']\<rparr>"

definition echo_entry :: ModelEntry where
  "echo_entry = \<lparr>session = echo_session, info = echo_info, last_modified = 7\<rparr>"

definition echo_models :: models where
  "echo_models = [''m'' \<mapsto> echo_entry]"

definition float_input :: TensorData where
  "float_input = TensorData_new\<lparr>td_name := ''x'', shape := [1, 2], float_data := [1, 2]\<rparr>"

definition raw_input :: TensorData where
  "raw_input = TensorData_new\<lparr>td_name := ''blob'', shape := [2], raw_data := [0, 1]\<rparr>"

definition mixed_request :: InferenceRequest where
  "mixed_request =
     \<lparr>model_name = ''m'', request_id = ''r2'', inputs = [float_input, raw_input],
      req_enqueue_time = 0\<rparr>"

definition echo_request :: InferenceRequest where
  "echo_request =
     \<lparr>model_name = ''m'', request_id = ''r1'', inputs = [float_input], req_enqueue_time = 0\<rparr>"

section \<open>Batch executor\<close>

record BatchingConfig =
  enabled :: bool
  max_batch_size :: "64 word"
  min_batch_size :: "64 word"
  max_wait_ms :: "32 word"
  adaptive_sizing :: bool

text \<open>
  A promise is known by its number; the values given to promises are kept, in the
  order of the \<^verbatim>\<open>set_value\<close> calls, in the field \<open>completions\<close> of the executor.
  (A second \<^verbatim>\<open>set_value\<close> on a promise would raise; it is shown below that no promise
  is given two values.)
\<close>

record PendingRequest =
  request :: InferenceRequest
  promise :: nat
  enqueue_time :: nat

text \<open>
  The part of the metrics collector that the executor writes. The histogram
  \<^verbatim>\<open>batch_latency_\<close> is kept as its bucket bounds and the values handed to its
  \<^verbatim>\<open>observe\<close>, in order: its state is \<open>batch_latency\<close> of them, for the arithmetic of
  the machine.
\<close>

record MetricsCollector =
  batches_total :: "64 word"
  batch_latency_buckets :: "rat list"
  batch_latency_observed :: "rat list"
  batch_sizes :: "64 word list"

definition MetricsCollector_new :: "rat list \<Rightarrow> MetricsCollector" where
  "MetricsCollector_new latency_buckets =
     \<lparr>batches_total = 0, batch_latency_buckets = latency_buckets,
      batch_latency_observed = [], batch_sizes = []\<rparr>"

definition batch_latency :: "double_arith \<Rightarrow> MetricsCollector \<Rightarrow> Histogram" where
  "batch_latency fp m =
     observe_all fp (batch_latency_observed m) (Histogram_new (batch_latency_buckets m))"

definition record_batch :: "64 word \<Rightarrow> rat \<Rightarrow> MetricsCollector \<Rightarrow> MetricsCollector" where
  "record_batch batch_size latency_seconds m =
     (let pushed = batch_sizes m @ [batch_size] in
      m\<lparr>batches_total := batches_total m + 1,
        batch_latency_observed := batch_latency_observed m @ [latency_seconds],
        batch_sizes := (if 1000 < length pushed then tl pushed else pushed)\<rparr>)"

text \<open>
  The state of the executor: the queue, the flag \<^verbatim>\<open>running_\<close> and the state of the
  worker thread; with them, what its functions change outside the object: the values
  given to promises, the number of promises made, the number of clock readings made,
  and the metrics.
\<close>

datatype worker_state = NotStarted | Looping | Exited

record BatchExecutor =
  pending_requests :: "PendingRequest list"
  running :: bool
  worker :: worker_state
  completions :: "(nat \<times> InferenceResponse) list"
  next_promise :: nat
  ticks :: nat
  metrics :: MetricsCollector

definition BatchExecutor_new :: "rat list \<Rightarrow> BatchExecutor" where
  "BatchExecutor_new latency_buckets =
     \<lparr>pending_requests = [], running = False, worker = NotStarted, completions = [],
      next_promise = 0, ticks = 0, metrics = MetricsCollector_new latency_buckets\<rparr>"

text \<open>
  The registry call the executor makes, \<^verbatim>\<open>model_registry_.run_inference\<close>: it takes the
  request and the number of clock readings so far.
\<close>

type_synonym inference = "InferenceRequest \<Rightarrow> nat \<Rightarrow> (exn + InferenceResponse) \<times> nat"

text \<open>
  \<^verbatim>\<open>submit\<close>. With batching disabled the registry is called at once and the promise
  is given its value before the future is returned; an exception of that call leaves
  \<^verbatim>\<open>submit\<close>, and no future is returned. Otherwise the request is queued.
\<close>

definition submit ::
  "BatchingConfig \<Rightarrow> inference \<Rightarrow> clock \<Rightarrow> BatchExecutor \<Rightarrow> InferenceRequest
     \<Rightarrow> (exn + nat) \<times> BatchExecutor" where
  "submit cfg run_inf clk st req =
     (let (t, n1) = now clk (ticks st);
          pending = \<lparr>request = req, promise = next_promise st, enqueue_time = t\<rparr>
      in if \<not> enabled cfg then
           (case run_inf (request pending) n1 of
              (Inl e, n2) \<Rightarrow> (Inl e, st\<lparr>ticks := n2\<rparr>)
            | (Inr response, n2) \<Rightarrow>
                (Inr (promise pending),
                 st\<lparr>completions := completions st @ [(promise pending, response)],
                    next_promise := Suc (next_promise st), ticks := n2\<rparr>))
         else
           (Inr (promise pending),
            st\<lparr>pending_requests := pending_requests st @ [pending],
               next_promise := Suc (next_promise st), ticks := n1\<rparr>))"

text \<open>
  \<^verbatim>\<open>should_flush_batch\<close>: the age of the oldest request, in whole milliseconds (the
  steady clock does not go back, so the age is not negative).
\<close>

fun should_flush_batch ::
  "BatchingConfig \<Rightarrow> clock \<Rightarrow> PendingRequest list \<Rightarrow> nat \<Rightarrow> bool \<times> nat" where
  "should_flush_batch cfg clk [] n = (False, n)"
| "should_flush_batch cfg clk (oldest # q) n =
     (let (t, n1) = now clk n;
          age_ms = (int t - int (enqueue_time oldest)) div 10 ^ 6
      in (int (unat (max_wait_ms cfg)) \<le> age_ms, n1))"

text \<open>The loop that moves \<^verbatim>\<open>batch_size\<close> requests from the head of the queue.\<close>

fun detach_loop ::
  "nat \<Rightarrow> PendingRequest list \<Rightarrow> PendingRequest list \<Rightarrow> PendingRequest list \<times> PendingRequest list"
  where
  "detach_loop 0 batch q = (batch, q)"
| "detach_loop (Suc k) batch [] = (batch, [])"
| "detach_loop (Suc k) batch (p # q) = detach_loop k (batch @ [p]) q"

text \<open>
  The section of \<^verbatim>\<open>executor_loop\<close> under the queue lock, after the test for leaving:
  the batch that is detached (empty when nothing is flushed), the queue left, and the
  clock readings made.
\<close>

definition collect_batch ::
  "BatchingConfig \<Rightarrow> clock \<Rightarrow> PendingRequest list \<Rightarrow> nat
     \<Rightarrow> PendingRequest list \<times> PendingRequest list \<times> nat" where
  "collect_batch cfg clk q n =
     (let (flush, n1) =
            (if unat (min_batch_size cfg) \<le> length q then (True, n)
             else should_flush_batch cfg clk q n)
      in if flush then
           (let batch_size = min (length q) (unat (max_batch_size cfg));
                (batch, q') = detach_loop batch_size [] q
            in (batch, q', n1))
         else ([], q, n1))"

text \<open>
  \<^verbatim>\<open>by_model[req->request.model_name].push_back(req)\<close>: the groups are kept here in
  the order in which their keys were first inserted. The map of the code is a
  \<^verbatim>\<open>std::unordered_map\<close>, whose iteration order the language leaves open: the order in
  which the groups are visited is a parameter \<open>ord\<close>, a rearrangement of the groups.
\<close>

type_synonym by_model_map = "(string \<times> PendingRequest list) list"

fun push_back_group :: "PendingRequest \<Rightarrow> by_model_map \<Rightarrow> by_model_map" where
  "push_back_group p [] = [(model_name (request p), [p])]"
| "push_back_group p ((k, ps) # g) =
     (if k = model_name (request p) then (k, ps @ [p]) # g
      else (k, ps) # push_back_group p g)"

fun group_batch :: "PendingRequest list \<Rightarrow> by_model_map \<Rightarrow> by_model_map" where
  "group_batch [] g = g"
| "group_batch (p # batch) g = group_batch batch (push_back_group p g)"

definition by_model :: "PendingRequest list \<Rightarrow> by_model_map" where
  "by_model batch = group_batch batch []"

type_synonym iteration_order = "by_model_map \<Rightarrow> by_model_map"

text \<open>
  The inner loop of \<^verbatim>\<open>process_batch\<close> over the requests of one group: the clock is
  read, the registry is called, and the promise is given the response, or the error
  response when the call throws.
\<close>

fun process_requests ::
  "inference \<Rightarrow> clock \<Rightarrow> PendingRequest list \<Rightarrow> (nat \<times> InferenceResponse) list \<times> nat
     \<Rightarrow> (nat \<times> InferenceResponse) list \<times> nat" where
  "process_requests run_inf clk [] acc = acc"
| "process_requests run_inf clk (pending # rest) (done, n) =
     (let (t, n1) = now clk n;
          queue_ms = millis (enqueue_time pending) t
      in case run_inf (request pending) n1 of
           (Inr response, n2) \<Rightarrow>
             process_requests run_inf clk rest
               (done @ [(promise pending, response\<lparr>queue_time_ms := queue_ms\<rparr>)], n2)
         | (Inl e, n2) \<Rightarrow>
             process_requests run_inf clk rest
               (done @ [(promise pending,
                         InferenceResponse_new\<lparr>success := False, error := what e,
                           queue_time_ms := queue_ms\<rparr>)], n2))"

fun process_groups ::
  "inference \<Rightarrow> clock \<Rightarrow> by_model_map \<Rightarrow> (nat \<times> InferenceResponse) list \<times> nat
     \<Rightarrow> (nat \<times> InferenceResponse) list \<times> nat" where
  "process_groups run_inf clk [] acc = acc"
| "process_groups run_inf clk ((k, requests) # groups) acc =
     process_groups run_inf clk groups (process_requests run_inf clk requests acc)"

definition process_batch ::
  "inference \<Rightarrow> clock \<Rightarrow> iteration_order \<Rightarrow> BatchExecutor \<Rightarrow> PendingRequest list
     \<Rightarrow> BatchExecutor" where
  "process_batch run_inf clk ord st batch =
     (let (batch_start, n1) = now clk (ticks st);
          (done, n2) = process_groups run_inf clk (ord (by_model batch)) (completions st, n1);
          (batch_end, n3) = now clk n2;
          batch_time_ms = millis batch_start batch_end
      in st\<lparr>completions := done, ticks := n3,
            metrics := record_batch (of_nat (length batch)) (batch_time_ms / 1000) (metrics st)\<rparr>)"

fun drain_loop ::
  "PendingRequest list \<Rightarrow> PendingRequest list \<Rightarrow> PendingRequest list \<times> PendingRequest list"
  where
  "drain_loop remaining [] = (remaining, [])"
| "drain_loop remaining (p # q) = drain_loop (remaining @ [p]) q"

definition drain_remaining ::
  "inference \<Rightarrow> clock \<Rightarrow> iteration_order \<Rightarrow> BatchExecutor \<Rightarrow> BatchExecutor" where
  "drain_remaining run_inf clk ord st =
     (let (remaining, q') = drain_loop [] (pending_requests st);
          st1 = st\<lparr>pending_requests := q'\<rparr>
      in if remaining \<noteq> [] then process_batch run_inf clk ord st1 remaining else st1)"

text \<open>
  One turn of the body of \<^verbatim>\<open>while (running_)\<close>, entered when the wait returns: the
  first component tells whether the body left the loop by \<^verbatim>\<open>break\<close>.
\<close>

definition loop_body ::
  "BatchingConfig \<Rightarrow> inference \<Rightarrow> clock \<Rightarrow> iteration_order \<Rightarrow> BatchExecutor
     \<Rightarrow> bool \<times> BatchExecutor" where
  "loop_body cfg run_inf clk ord st =
     (if \<not> running st \<and> pending_requests st = [] then (True, st)
      else
        (let (batch, q', n1) = collect_batch cfg clk (pending_requests st) (ticks st);
             st1 = st\<lparr>pending_requests := q', ticks := n1\<rparr>
         in (False, if batch \<noteq> [] then process_batch run_inf clk ord st1 batch else st1)))"

text \<open>
  The threads. The executor is driven by a sequence of events, each atomic: \<open>Start\<close>
  and \<open>Stop\<close> are the calls of \<^verbatim>\<open>start()\<close> and \<^verbatim>\<open>stop()\<close>, \<open>Submit\<close> is a call of
  \<^verbatim>\<open>submit\<close> from a handler thread, and \<open>WorkerTurn\<close> is one turn of the worker: the
  test of \<^verbatim>\<open>while (running_)\<close>, then the body, or the drain and the end of the thread
  when the test fails. \<^verbatim>\<open>stop()\<close> joins the worker, so \<open>Stop\<close> runs the worker to its
  end: \<open>Stop True\<close> when the flag changes while the worker is inside the body (it
  finishes that turn, then drains), \<open>Stop False\<close> when the worker is at the test.
  \<^verbatim>\<open>start()\<close> on an executor whose worker is looping (it would assign to a thread
  that has not been joined, which ends the process) is left out: there \<open>Start\<close>
  changes nothing.
\<close>

datatype event = Start | Submit InferenceRequest | WorkerTurn | Stop bool

definition start :: "BatchingConfig \<Rightarrow> BatchExecutor \<Rightarrow> BatchExecutor" where
  "start cfg st =
     (if \<not> enabled cfg then st
      else if worker st = Looping then st
      else st\<lparr>running := True, worker := Looping\<rparr>)"

definition worker_exit ::
  "inference \<Rightarrow> clock \<Rightarrow> iteration_order \<Rightarrow> BatchExecutor \<Rightarrow> BatchExecutor" where
  "worker_exit run_inf clk ord st = (drain_remaining run_inf clk ord st)\<lparr>worker := Exited\<rparr>"

definition worker_turn ::
  "BatchingConfig \<Rightarrow> inference \<Rightarrow> clock \<Rightarrow> iteration_order \<Rightarrow> BatchExecutor
     \<Rightarrow> BatchExecutor" where
  "worker_turn cfg run_inf clk ord st =
     (if worker st \<noteq> Looping then st
      else if \<not> running st then worker_exit run_inf clk ord st
      else (case loop_body cfg run_inf clk ord st of
              (True, st') \<Rightarrow> worker_exit run_inf clk ord st'
            | (False, st') \<Rightarrow> st'))"

definition stop ::
  "BatchingConfig \<Rightarrow> inference \<Rightarrow> clock \<Rightarrow> iteration_order \<Rightarrow> bool \<Rightarrow> BatchExecutor
     \<Rightarrow> BatchExecutor" where
  "stop cfg run_inf clk ord in_body st =
     (if \<not> running st then st
      else
        (let st1 = st\<lparr>running := False\<rparr>
         in if worker st1 \<noteq> Looping then st1
            else if in_body then
              worker_exit run_inf clk ord (snd (loop_body cfg run_inf clk ord st1))
            else worker_exit run_inf clk ord st1))"

fun step ::
  "BatchingConfig \<Rightarrow> inference \<Rightarrow> clock \<Rightarrow> iteration_order \<Rightarrow> BatchExecutor \<Rightarrow> event
     \<Rightarrow> BatchExecutor" where
  "step cfg run_inf clk ord st Start = start cfg st"
| "step cfg run_inf clk ord st (Submit req) = snd (submit cfg run_inf clk st req)"
| "step cfg run_inf clk ord st WorkerTurn = worker_turn cfg run_inf clk ord st"
| "step cfg run_inf clk ord st (Stop in_body) = stop cfg run_inf clk ord in_body st"

definition run_events ::
  "BatchingConfig \<Rightarrow> inference \<Rightarrow> clock \<Rightarrow> iteration_order \<Rightarrow> event list \<Rightarrow> BatchExecutor
     \<Rightarrow> BatchExecutor" where
  "run_events cfg run_inf clk ord evs st = foldl (step cfg run_inf clk ord) st evs"

subsection \<open>The vocabulary of the properties\<close>

text \<open>
  The futures handed out so far are \<open>0, \<dots>, next_promise - 1\<close>. A future is fulfilled
  exactly once when its promise has been given exactly one value.
\<close>

definition fulfilled_once :: "BatchExecutor \<Rightarrow> nat \<Rightarrow> bool" where
  "fulfilled_once st i = (count_list (map fst (completions st)) i = 1)"

definition all_fulfilled_once :: "BatchExecutor \<Rightarrow> bool" where
  "all_fulfilled_once st = list_all (fulfilled_once st) [0..<next_promise st]"

text \<open>
  Every promise handed out so far is either waiting in the queue or has been given a
  value, and is counted once.
\<close>

definition promises_accounted :: "BatchExecutor \<Rightarrow> bool" where
  "promises_accounted st =
     (mset (map promise (pending_requests st)) + mset (map fst (completions st))
        = mset [0..<next_promise st])"

text \<open>Iterating over a map visits every entry once: \<open>ord\<close> rearranges its argument.\<close>

definition rearranges :: "iteration_order \<Rightarrow> bool" where
  "rearranges ord = (\<forall>g. mset (ord g) = mset g)"

text \<open>
  The order in which \<^verbatim>\<open>process_batch\<close> visits the requests of a batch: the groups in
  the iteration order of the map, and the requests of a group as they were pushed.
\<close>

definition dispatch_order :: "iteration_order \<Rightarrow> PendingRequest list \<Rightarrow> PendingRequest list" where
  "dispatch_order ord batch = concat (map snd (ord (by_model batch)))"

text \<open>The model a pending request is for.\<close>

definition model_of :: "PendingRequest \<Rightarrow> string" where
  "model_of p = model_name (request p)"

text \<open>The order in which the model names of a batch are first seen.\<close>

fun first_seen :: "string list \<Rightarrow> string list \<Rightarrow> string list" where
  "first_seen seen [] = seen"
| "first_seen seen (k # ks) = first_seen (if k \<in> set seen then seen else seen @ [k]) ks"

text \<open>
  What grouping by model name means, said without the loop: the keys are distinct,
  and the group of a name holds the requests seen for that name, in the order seen.
\<close>

definition grouped :: "by_model_map \<Rightarrow> PendingRequest list \<Rightarrow> bool" where
  "grouped g seen =
     (distinct (map fst g) \<and>
      (\<forall>k. map_of g k =
           (if k \<in> model_of ` set seen then Some (filter (\<lambda>p. model_of p = k) seen)
            else None)))"

text \<open>
  The clock reading from which the queue time of each request of a dispatch is
  computed, as the number of the reading: the reading made when the request's turn
  comes, the next request reading after the registry call of this one has returned.
\<close>

fun dispatch_ticks :: "inference \<Rightarrow> PendingRequest list \<Rightarrow> nat \<Rightarrow> nat list" where
  "dispatch_ticks run_inf [] n = []"
| "dispatch_ticks run_inf (p # ps) n =
     n # dispatch_ticks run_inf ps (snd (run_inf (request p) (Suc n)))"

subsection \<open>Example configurations, requests and clocks\<close>

definition batching_on :: BatchingConfig where
  "batching_on =
     \<lparr>enabled = True, max_batch_size = 2, min_batch_size = 1, max_wait_ms = 10,
      adaptive_sizing = True\<rparr>"

definition request_for :: "string \<Rightarrow> InferenceRequest" where
  "request_for nm = echo_request\<lparr>model_name := nm\<rparr>"

definition pending_for :: "string \<Rightarrow> nat \<Rightarrow> nat \<Rightarrow> PendingRequest" where
  "pending_for nm pid t = \<lparr>request = request_for nm, promise = pid, enqueue_time = t\<rparr>"

definition echo_inference :: "clock \<Rightarrow> inference" where
  "echo_inference clk = ModelRegistry_run_inference world_ok clk echo_models"

text \<open>A clock given by its first readings; the last one is repeated.\<close>

definition clock_of :: "nat list \<Rightarrow> clock" where
  "clock_of readings k = (if k < length readings then readings ! k else last readings)"

text \<open>
  The clock of the example of two requests: the dispatch starts at 10 ms, each
  registry call takes 2 ms, and no time passes elsewhere.
\<close>

definition clock_2ms :: clock where
  "clock_2ms =
     clock_of [10000000, 10000000, 10000000, 12000000, 12000000, 12000000, 14000000]"

section \<open>JSON values\<close>

text \<open>
  The JSON library (nlohmann) is not part of the repository. A value is null, a
  boolean, a signed or an unsigned 64-bit integer, a floating-point number, a string,
  an array or an object; the members of an object are listed in the order in which
  the library iterates over them. The conversions below are the library's
  \<^verbatim>\<open>get<T>()\<close>: a value of the wrong kind raises \<^verbatim>\<open>type_error\<close>.
\<close>

datatype json =
  JNull | JBool bool | JInt "64 word" | JUInt "64 word" | JFloat rat | JString string
  | JArray "json list" | JObject "(string \<times> json) list"

definition type_error :: exn where
  "type_error = StdException ''type_error''"

fun contains :: "json \<Rightarrow> string \<Rightarrow> bool" where
  "contains (JObject kv) k = (map_of kv k \<noteq> None)"
| "contains _ k = False"

text \<open>\<^verbatim>\<open>j[key]\<close>, used by the code only after \<^verbatim>\<open>contains(key)\<close>.\<close>

fun at_key :: "json \<Rightarrow> string \<Rightarrow> json" where
  "at_key (JObject kv) k = (case map_of kv k of Some v \<Rightarrow> v | None \<Rightarrow> JNull)"
| "at_key _ k = JNull"

fun is_array :: "json \<Rightarrow> bool" where
  "is_array (JArray xs) = True"
| "is_array _ = False"

fun get_string :: "json \<Rightarrow> exn + string" where
  "get_string (JString s) = Inr s"
| "get_string _ = Inl type_error"

fun get_bool :: "json \<Rightarrow> exn + bool" where
  "get_bool (JBool b) = Inr b"
| "get_bool _ = Inl type_error"

text \<open>\<^verbatim>\<open>get<int>()\<close> and \<^verbatim>\<open>get<uint32_t>()\<close>: the low 32 bits of an integer.\<close>

fun get_32 :: "json \<Rightarrow> exn + 32 word" where
  "get_32 (JInt i) = Inr (ucast i)"
| "get_32 (JUInt u) = Inr (ucast u)"
| "get_32 (JFloat x) = Inr (word_of_int (trunc_zero x))"
| "get_32 (JBool b) = Inr (if b then 1 else 0)"
| "get_32 _ = Inl type_error"

text \<open>\<^verbatim>\<open>get<size_t>()\<close> and \<^verbatim>\<open>get<int64_t>()\<close>.\<close>

fun get_64 :: "json \<Rightarrow> exn + 64 word" where
  "get_64 (JInt i) = Inr i"
| "get_64 (JUInt u) = Inr u"
| "get_64 (JFloat x) = Inr (word_of_int (trunc_zero x))"
| "get_64 _ = Inl type_error"

fun get_double :: "json \<Rightarrow> exn + rat" where
  "get_double (JInt i) = Inr (of_int (sint i))"
| "get_double (JUInt u) = Inr (of_nat (unat u))"
| "get_double (JFloat x) = Inr x"
| "get_double _ = Inl type_error"

text \<open>Conversion of the elements of an array, stopping at the first that fails.\<close>

fun get_all :: "(json \<Rightarrow> exn + 'a) \<Rightarrow> json list \<Rightarrow> exn + 'a list" where
  "get_all conv [] = Inr []"
| "get_all conv (x # xs) =
     (case conv x of
        Inl e \<Rightarrow> Inl e
      | Inr v \<Rightarrow> (case get_all conv xs of Inl e \<Rightarrow> Inl e | Inr vs \<Rightarrow> Inr (v # vs)))"

fun get_vector :: "(json \<Rightarrow> exn + 'a) \<Rightarrow> json \<Rightarrow> exn + 'a list" where
  "get_vector conv (JArray xs) = get_all conv xs"
| "get_vector conv _ = Inl type_error"

section \<open>Configuration\<close>

record ServerConfig =
  host :: string
  port :: "32 word"
  threads :: "32 word"

record InferenceConfig =
  providers :: "string list"
  gpu_device_id :: "32 word"
  memory_limit_mb :: "64 word"
  intra_op_threads :: "32 word"
  inter_op_threads :: "32 word"
  graph_optimization :: string

record ModelsConfig =
  directory :: string
  hot_reload :: bool
  watch_interval_ms :: "32 word"
  preload :: "string list"

record MetricsConfig =
  metrics_enabled :: bool
  metrics_path :: string
  latency_buckets :: "rat list"

record LoggingConfig =
  log_level :: string
  log_format :: string
  log_timestamp :: bool

record Config =
  server :: ServerConfig
  inference :: InferenceConfig
  batching :: BatchingConfig
  models :: ModelsConfig
  metrics_cfg :: MetricsConfig
  logging :: LoggingConfig

text \<open>The member initialisers of the structs: the built-in defaults.\<close>

definition ServerConfig_default :: ServerConfig where
  "ServerConfig_default = \<lparr>host = ''0.0.0.0'', port = 8080, threads = 4\<rparr>"

definition InferenceConfig_default :: InferenceConfig where
  "InferenceConfig_default =
     \<lparr>providers = [''cuda'', ''cpu''], gpu_device_id = 0, memory_limit_mb = 4096,
      intra_op_threads = 0, inter_op_threads = 0, graph_optimization = ''all''\<rparr>"

definition BatchingConfig_default :: BatchingConfig where
  "BatchingConfig_default =
     \<lparr>enabled = True, max_batch_size = 32, min_batch_size = 1, max_wait_ms = 10,
      adaptive_sizing = True\<rparr>"

definition ModelsConfig_default :: ModelsConfig where
  "ModelsConfig_default =
     \<lparr>directory = ''./models'', hot_reload = True, watch_interval_ms = 5000, preload = []\<rparr>"

definition MetricsConfig_default :: MetricsConfig where
  "MetricsConfig_default =
     \<lparr>metrics_enabled = True, metrics_path = ''/metrics'',
      latency_buckets = [1 / 1000, 5 / 1000, 1 / 100, 25 / 1000, 5 / 100, 1 / 10, 25 / 100,
                         5 / 10, 1]\<rparr>"

definition LoggingConfig_default :: LoggingConfig where
  "LoggingConfig_default = \<lparr>log_level = ''info'', log_format = ''json'', log_timestamp = True\<rparr>"

definition Config_default :: Config where
  "Config_default =
     \<lparr>server = ServerConfig_default, inference = InferenceConfig_default,
      batching = BatchingConfig_default, models = ModelsConfig_default,
      metrics_cfg = MetricsConfig_default, logging = LoggingConfig_default\<rparr>"

text \<open>
  \<^verbatim>\<open>Config::to_json\<close>. An \<^verbatim>\<open>int\<close> becomes a signed number (sign-extended), a
  \<^verbatim>\<open>size_t\<close> or \<^verbatim>\<open>uint32_t\<close> an unsigned one.
\<close>

definition to_json :: "Config \<Rightarrow> json" where
  "to_json c =
     JObject
       [(''server'',
           JObject [(''host'', JString (host (server c))),
                    (''port'', JInt (scast (port (server c)))),
                    (''threads'', JInt (scast (threads (server c))))]),
        (''inference'',
           JObject [(''providers'', JArray (map JString (providers (inference c)))),
                    (''gpu_device_id'', JInt (scast (gpu_device_id (inference c)))),
                    (''memory_limit_mb'', JUInt (memory_limit_mb (inference c)))]),
        (''batching'',
           JObject [(''enabled'', JBool (enabled (batching c))),
                    (''max_batch_size'', JUInt (max_batch_size (batching c))),
                    (''max_wait_ms'', JUInt (ucast (max_wait_ms (batching c))))]),
        (''models'',
           JObject [(''directory'', JString (directory (models c))),
                    (''hot_reload'', JBool (hot_reload (models c)))]),
        (''metrics'',
           JObject [(''enabled'', JBool (metrics_enabled (metrics_cfg c))),
                    (''path'', JString (metrics_path (metrics_cfg c)))])]"

text \<open>
  \<^verbatim>\<open>if (s.contains(key)) field = s[key];\<close>: the field keeps its value when the key is
  absent; a member of the wrong kind raises.
\<close>

definition field :: "json \<Rightarrow> string \<Rightarrow> (json \<Rightarrow> exn + 'a) \<Rightarrow> 'a \<Rightarrow> exn + 'a" where
  "field s key conv current = (if contains s key then conv (at_key s key) else Inr current)"

definition bind_exn :: "exn + 'a \<Rightarrow> ('a \<Rightarrow> exn + 'b) \<Rightarrow> exn + 'b" where
  "bind_exn r f = (case r of Inl e \<Rightarrow> Inl e | Inr v \<Rightarrow> f v)"

definition parse_server :: "json \<Rightarrow> ServerConfig \<Rightarrow> exn + ServerConfig" where
  "parse_server j d =
     (if contains j ''server'' then
        (let s = at_key j ''server'' in
         bind_exn (field s ''host'' get_string (host d)) (\<lambda>h.
         bind_exn (field s ''port'' get_32 (port d)) (\<lambda>p.
         bind_exn (field s ''threads'' get_32 (threads d)) (\<lambda>t.
         Inr \<lparr>host = h, port = p, threads = t\<rparr>))))
      else Inr d)"

definition parse_inference :: "json \<Rightarrow> InferenceConfig \<Rightarrow> exn + InferenceConfig" where
  "parse_inference j d =
     (if contains j ''inference'' then
        (let i = at_key j ''inference'' in
         bind_exn (field i ''providers'' (get_vector get_string) (providers d)) (\<lambda>pr.
         bind_exn (field i ''gpu_device_id'' get_32 (gpu_device_id d)) (\<lambda>g.
         bind_exn (field i ''memory_limit_mb'' get_64 (memory_limit_mb d)) (\<lambda>m.
         bind_exn (field i ''intra_op_threads'' get_32 (intra_op_threads d)) (\<lambda>ia.
         bind_exn (field i ''inter_op_threads'' get_32 (inter_op_threads d)) (\<lambda>ie.
         bind_exn (field i ''graph_optimization'' get_string (graph_optimization d)) (\<lambda>go.
         Inr \<lparr>providers = pr, gpu_device_id = g, memory_limit_mb = m, intra_op_threads = ia,
              inter_op_threads = ie, graph_optimization = go\<rparr>)))))))
      else Inr d)"

definition parse_batching :: "json \<Rightarrow> BatchingConfig \<Rightarrow> exn + BatchingConfig" where
  "parse_batching j d =
     (if contains j ''batching'' then
        (let b = at_key j ''batching'' in
         bind_exn (field b ''enabled'' get_bool (enabled d)) (\<lambda>en.
         bind_exn (field b ''max_batch_size'' get_64 (max_batch_size d)) (\<lambda>mx.
         bind_exn (field b ''min_batch_size'' get_64 (min_batch_size d)) (\<lambda>mn.
         bind_exn (field b ''max_wait_ms'' get_32 (max_wait_ms d)) (\<lambda>mw.
         bind_exn (field b ''adaptive_sizing'' get_bool (adaptive_sizing d)) (\<lambda>ad.
         Inr \<lparr>enabled = en, max_batch_size = mx, min_batch_size = mn, max_wait_ms = mw,
              adaptive_sizing = ad\<rparr>))))))
      else Inr d)"

definition parse_models :: "json \<Rightarrow> ModelsConfig \<Rightarrow> exn + ModelsConfig" where
  "parse_models j d =
     (if contains j ''models'' then
        (let m = at_key j ''models'' in
         bind_exn (field m ''directory'' get_string (directory d)) (\<lambda>di.
         bind_exn (field m ''hot_reload'' get_bool (hot_reload d)) (\<lambda>hr.
         bind_exn (field m ''watch_interval_ms'' get_32 (watch_interval_ms d)) (\<lambda>wi.
         bind_exn (field m ''preload'' (get_vector get_string) (preload d)) (\<lambda>pl.
         Inr \<lparr>directory = di, hot_reload = hr, watch_interval_ms = wi, preload = pl\<rparr>)))))
      else Inr d)"

definition parse_metrics :: "json \<Rightarrow> MetricsConfig \<Rightarrow> exn + MetricsConfig" where
  "parse_metrics j d =
     (if contains j ''metrics'' then
        (let met = at_key j ''metrics'' in
         bind_exn (field met ''enabled'' get_bool (metrics_enabled d)) (\<lambda>en.
         bind_exn (field met ''path'' get_string (metrics_path d)) (\<lambda>pa.
         bind_exn (field met ''latency_buckets'' (get_vector get_double) (latency_buckets d)) (\<lambda>lb.
         Inr \<lparr>metrics_enabled = en, metrics_path = pa, latency_buckets = lb\<rparr>))))
      else Inr d)"

definition parse_logging :: "json \<Rightarrow> LoggingConfig \<Rightarrow> exn + LoggingConfig" where
  "parse_logging j d =
     (if contains j ''logging'' then
        (let l = at_key j ''logging'' in
         bind_exn (field l ''level'' get_string (log_level d)) (\<lambda>lv.
         bind_exn (field l ''format'' get_string (log_format d)) (\<lambda>fm.
         bind_exn (field l ''timestamp'' get_bool (log_timestamp d)) (\<lambda>ts.
         Inr \<lparr>log_level = lv, log_format = fm, log_timestamp = ts\<rparr>))))
      else Inr d)"

text \<open>\<^verbatim>\<open>Config::parse_json\<close>: a default configuration, overwritten section by section.\<close>

definition parse_json :: "json \<Rightarrow> exn + Config" where
  "parse_json j =
     bind_exn (parse_server j (server Config_default)) (\<lambda>s.
     bind_exn (parse_inference j (inference Config_default)) (\<lambda>i.
     bind_exn (parse_batching j (batching Config_default)) (\<lambda>b.
     bind_exn (parse_models j (models Config_default)) (\<lambda>m.
     bind_exn (parse_metrics j (metrics_cfg Config_default)) (\<lambda>met.
     bind_exn (parse_logging j (logging Config_default)) (\<lambda>l.
     Inr \<lparr>server = s, inference = i, batching = b, models = m, metrics_cfg = met,
          logging = l\<rparr>))))))"

text \<open>
  The fields that \<^verbatim>\<open>to_json\<close> does not write, set to their defaults: what a
  configuration is after it has been written and read.
\<close>

definition written_fields :: "Config \<Rightarrow> Config" where
  "written_fields c =
     c\<lparr>inference := (inference c)\<lparr>intra_op_threads := 0, inter_op_threads := 0,
                       graph_optimization := ''all''\<rparr>,
       batching := (batching c)\<lparr>min_batch_size := 1, adaptive_sizing := True\<rparr>,
       models := (models c)\<lparr>watch_interval_ms := 5000, preload := []\<rparr>,
       metrics_cfg := (metrics_cfg c)\<lparr>latency_buckets := latency_buckets MetricsConfig_default\<rparr>,
       logging := LoggingConfig_default\<rparr>"

section \<open>The inference handler\<close>

record HttpResponse =
  status :: nat
  body :: json

text \<open>The error bodies \<^verbatim>\<open>{"error": {"code", "message", "detail"?}}\<close>.\<close>

definition error_body :: "nat \<Rightarrow> string \<Rightarrow> string option \<Rightarrow> json" where
  "error_body code message detail =
     JObject [(''error'',
       JObject ([(''code'', JInt (of_nat code)), (''message'', JString message)] @
                (case detail of None \<Rightarrow> [] | Some d \<Rightarrow> [(''detail'', JString d)])))]"

text \<open>
  \<^verbatim>\<open>parse_tensor_data\<close>: nested arrays are flattened; a floating-point number is
  taken as it is, an integer is converted, anything else is skipped.
\<close>

fun flatten :: "json \<Rightarrow> rat list" where
  "flatten (JArray xs) = concat (map flatten xs)"
| "flatten (JFloat x) = [x]"
| "flatten (JInt i) = [of_int (sint i)]"
| "flatten (JUInt u) = [of_int (sint u)]"
| "flatten _ = []"

text \<open>
  \<^verbatim>\<open>items()\<close>: the members of an object with their keys; the elements of an array
  with their positions as keys; nothing for null; a single item with an empty key for
  any other value.
\<close>

fun digit_char :: "nat \<Rightarrow> char" where
  "digit_char n = char_of (48 + n)"

fun to_string :: "nat \<Rightarrow> string" where
  "to_string n = (if n < 10 then [digit_char n] else to_string (n div 10) @ [digit_char (n mod 10)])"

fun items :: "json \<Rightarrow> (string \<times> json) list" where
  "items (JObject kv) = kv"
| "items (JArray xs) = zip (map to_string [0..<length xs]) xs"
| "items JNull = []"
| "items v = [([], v)]"

text \<open>One input tensor read from its description; a member of the wrong kind raises.\<close>

definition parse_input :: "string \<Rightarrow> json \<Rightarrow> exn + TensorData" where
  "parse_input nm tensor =
     bind_exn (field tensor ''shape'' (get_vector get_64) (shape TensorData_new)) (\<lambda>sh.
     bind_exn
       (Inr (if contains tensor ''data'' \<and> is_array (at_key tensor ''data'')
             then flatten (at_key tensor ''data'') else [])) (\<lambda>fd.
     bind_exn (field tensor ''dtype'' get_string (dtype TensorData_new)) (\<lambda>dt.
     Inr (TensorData_new\<lparr>td_name := nm, shape := sh, float_data := fd, dtype := dt\<rparr>))))"

fun parse_inputs :: "(string \<times> json) list \<Rightarrow> exn + TensorData list" where
  "parse_inputs [] = Inr []"
| "parse_inputs ((nm, tensor) # rest) =
     bind_exn (parse_input nm tensor) (\<lambda>inp.
     bind_exn (parse_inputs rest) (\<lambda>ins. Inr (inp # ins)))"

text \<open>\<^verbatim>\<open>response["outputs"][output.name] = ...\<close>: a later output replaces one of the same name.\<close>

fun set_member :: "string \<Rightarrow> json \<Rightarrow> (string \<times> json) list \<Rightarrow> (string \<times> json) list" where
  "set_member k v [] = [(k, v)]"
| "set_member k v ((k', v') # kv) =
     (if k' = k then (k, v) # kv else (k', v') # set_member k v kv)"

definition output_json :: "TensorData \<Rightarrow> json" where
  "output_json out =
     JObject [(''shape'', JArray (map JInt (shape out))),
              (''data'', if float_data out = [] then JArray (map JInt (int_data out))
                         else JArray (map JFloat (float_data out)))]"

definition response_body :: "string \<Rightarrow> InferenceResponse \<Rightarrow> json" where
  "response_body nm infer_res =
     JObject ([(''model_name'', JString nm),
               (''outputs'',
                  JObject (foldl (\<lambda>kv out. set_member (td_name out) (output_json out) kv) []
                             (outputs infer_res)))] @
              (if 0 < inference_time_ms infer_res
               then [(''timing'',
                        JObject [(''inference_ms'', JFloat (inference_time_ms infer_res)),
                                 (''queue_ms'', JFloat (queue_time_ms infer_res))])]
               else []))"

text \<open>
  \<^verbatim>\<open>Handlers::handle_infer\<close>. The parser of the request body is a parameter, and so is
  \<open>submit_get\<close>, the call \<^verbatim>\<open>batch_executor_.submit(req).get()\<close> that waits for the
  worker. With batching disabled the registry is called directly. (The bodies are
  JSON values, not their text; the update of the inference metrics after a response
  has been built is left out.)
\<close>

definition handle_infer ::
  "(string \<Rightarrow> exn + json) \<Rightarrow> World \<Rightarrow> clock \<Rightarrow> models \<Rightarrow> bool \<Rightarrow> inference
     \<Rightarrow> string \<Rightarrow> string \<Rightarrow> string \<Rightarrow> nat \<Rightarrow> HttpResponse \<times> nat" where
  "handle_infer json_parse w clk reg batching_enabled submit_get nm req_body ctx_request_id n =
     (case json_parse req_body of
        Inl e \<Rightarrow>
          (\<lparr>status = 400, body = error_body 400 ''Invalid JSON body'' (Some (what e))\<rparr>, n)
      | Inr request_body \<Rightarrow>
          if \<not> contains request_body ''inputs'' then
            (\<lparr>status = 400, body = error_body 400 ''Missing 'inputs' field'' None\<rparr>, n)
          else if \<not> has reg nm then
            (\<lparr>status = 404, body = error_body 404 (''Model not found: '' @ nm) None\<rparr>, n)
          else
            (case parse_inputs (items (at_key request_body ''inputs'')) of
               Inl e \<Rightarrow>
                 (\<lparr>status = 500, body = error_body 500 ''Inference failed'' (Some (what e))\<rparr>, n)
             | Inr ins \<Rightarrow>
                 (let infer_req =
                        \<lparr>model_name = nm, request_id = ctx_request_id, inputs = ins,
                         req_enqueue_time = 0\<rparr>
                  in case (if batching_enabled then submit_get infer_req n
                           else ModelRegistry_run_inference w clk reg infer_req n) of
                       (Inl e, n') \<Rightarrow>
                         (\<lparr>status = 500,
                           body = error_body 500 ''Inference failed'' (Some (what e))\<rparr>, n')
                     | (Inr infer_res, n') \<Rightarrow>
                         (\<lparr>status = 200, body = response_body nm infer_res\<rparr>, n'))))"

text \<open>A request body for the examples, as the parser returns it.\<close>

definition echo_body :: json where
  "echo_body =
     JObject [(''inputs'',
       JObject [(''x'', JObject [(''shape'', JArray [JInt 1, JInt 2]),
                                 (''data'', JArray [JFloat 1, JFloat 2])])])]"

chapter \<open>Properties\<close>

section \<open>Histogram\<close>

lemma observe_all_count:
  "h_count (observe_all fp vs h) = h_count h + of_nat (length vs)"
  by (induction vs arbitrary: h) (simp_all add: observe_def)

lemma static_cast_u64_nonneg:
  "0 \<le> x \<Longrightarrow> static_cast_u64 x = of_nat (nat \<lfloor>x\<rfloor>)"
  by (simp add: static_cast_u64_def trunc_zero_def)

lemma observe_all_sum:
  "\<forall>v \<in> set vs. 0 \<le> times_1e9 fp v \<Longrightarrow>
   h_sum (observe_all fp vs h) = h_sum h + of_nat (total_ns fp vs)"
  by (induction vs arbitrary: h)
     (simp_all add: observe_def total_ns_def whole_ns_def static_cast_u64_nonneg)

lemma bump_bucket_bound [simp]: "upper_bound (bump_bucket v b) = upper_bound b"
  by (simp add: bump_bucket_def)

lemma observe_all_bounds:
  "map upper_bound (h_buckets (observe_all fp vs h)) = map upper_bound (h_buckets h)"
  by (induction vs arbitrary: h) (simp_all add: observe_def comp_def)

lemma observe_all_length:
  "length (h_buckets (observe_all fp vs h)) = length (h_buckets h)"
  by (induction vs arbitrary: h) (simp_all add: observe_def)

lemma observe_all_bcount:
  "i < length (h_buckets h) \<Longrightarrow>
   bcount (h_buckets (observe_all fp vs h) ! i) =
     bcount (h_buckets h ! i) + of_nat (count_under (upper_bound (h_buckets h ! i)) vs)"
  by (induction vs arbitrary: h)
     (simp_all add: observe_def count_under_def bump_bucket_def)

text \<open>
  C6 (as amended). After \<open>observe\<close> has been called with the values \<open>vs\<close> on a new
  histogram with bounds \<open>bs\<close>, the products \<^verbatim>\<open>value * 1e9\<close> that the machine formed
  being not negative: \<open>count()\<close> is the number of values; the stored sum is the total,
  over the values, of the whole part of the product the machine formed for the value,
  and \<open>sum()\<close> is what the machine makes of that integer divided by \<^verbatim>\<open>1e9\<close>; the
  bounds are the given ones followed by +Inf; and the count of every bucket is the
  number of values at or under its bound. (The counters are 64-bit: both totals are
  supposed to fit.)
\<close>

theorem histogram_observe_all:
  assumes "\<forall>v \<in> set vs. 0 \<le> times_1e9 fp v"
    and "length vs < 2 ^ 64"
    and "total_ns fp vs < 2 ^ 64"
  shows "unat (hist_count (observe_all fp vs (Histogram_new bs))) = length vs
       \<and> unat (h_sum (observe_all fp vs (Histogram_new bs))) = total_ns fp vs
       \<and> hist_sum fp (observe_all fp vs (Histogram_new bs))
           = ns_to_seconds fp (of_nat (total_ns fp vs))
       \<and> map upper_bound (h_buckets (observe_all fp vs (Histogram_new bs))) = map Fin bs @ [PInf]
       \<and> (\<forall>i < length bs + 1.
            unat (bcount (h_buckets (observe_all fp vs (Histogram_new bs)) ! i)) =
            count_under ((map Fin bs @ [PInf]) ! i) vs)"
proof -
  let ?new = "Histogram_new bs"
  let ?fin = "observe_all fp vs ?new"
  have bounds0: "map upper_bound (h_buckets ?new) = map Fin bs @ [PInf]"
    by (simp add: Histogram_new_def new_bucket_def comp_def)
  have len0: "length (h_buckets ?new) = length bs + 1"
    by (simp add: Histogram_new_def)
  have cnt: "unat (hist_count ?fin) = length vs"
    using assms(2)
    by (simp add: hist_count_def observe_all_count Histogram_new_def unat_of_nat)
  have stored: "h_sum ?fin = of_nat (total_ns fp vs)"
    using observe_all_sum [OF assms(1), of ?new] by (simp add: Histogram_new_def)
  then have ns: "unat (h_sum ?fin) = total_ns fp vs"
    using assms(3) by (simp add: unat_of_nat)
  have sm: "hist_sum fp ?fin = ns_to_seconds fp (of_nat (total_ns fp vs))"
    by (simp only: hist_sum_def stored)
  have bnd: "map upper_bound (h_buckets ?fin) = map Fin bs @ [PInf]"
    by (simp only: observe_all_bounds bounds0)
  have bk: "unat (bcount (h_buckets ?fin ! i)) = count_under ((map Fin bs @ [PInf]) ! i) vs"
    if i: "i < length bs + 1" for i
  proof -
    have ub: "upper_bound (h_buckets ?new ! i) = (map Fin bs @ [PInf]) ! i"
      using i len0 bounds0 by (metis nth_map)
    have zero: "bcount (h_buckets ?new ! i) = 0"
      using i by (cases "i < length bs")
        (simp_all add: Histogram_new_def new_bucket_def nth_append)
    have "count_under ((map Fin bs @ [PInf]) ! i) vs \<le> length vs"
      by (simp add: count_under_def)
    then have small: "count_under ((map Fin bs @ [PInf]) ! i) vs < 2 ^ 64"
      using assms(2) by simp
    have "bcount (h_buckets ?fin ! i) = of_nat (count_under ((map Fin bs @ [PInf]) ! i) vs)"
      using observe_all_bcount [of i ?new fp vs] i len0 ub zero by simp
    then show ?thesis
      using small by (simp add: unat_of_nat)
  qed
  show ?thesis
    using cnt ns sm bnd bk by blast
qed

theorem histogram_observe_all_witness:
  "unat (hist_count (observe_all exact_arith [1 / 4, 3 / 2] (Histogram_new [1 / 2, 1]))) = 2
   \<and> unat (h_sum (observe_all exact_arith [1 / 4, 3 / 2] (Histogram_new [1 / 2, 1])))
       = 1750000000
   \<and> hist_sum exact_arith (observe_all exact_arith [1 / 4, 3 / 2] (Histogram_new [1 / 2, 1]))
       = 7 / 4"
proof -
  have h1: "\<forall>v \<in> set [1 / 4, 3 / 2 :: rat]. 0 \<le> times_1e9 exact_arith v"
    by (simp add: exact_arith_def)
  have h2: "length [1 / 4, 3 / 2 :: rat] < 2 ^ 64"
    by simp
  have t: "total_ns exact_arith [1 / 4, 3 / 2] = 1750000000"
    by (simp add: total_ns_def whole_ns_def exact_arith_def)
  have h3: "total_ns exact_arith [1 / 4, 3 / 2] < 2 ^ 64"
    by (simp add: t)
  have secs: "ns_to_seconds exact_arith (of_nat 1750000000) = 7 / 4"
    by (simp add: exact_arith_def)
  show ?thesis
    using histogram_observe_all [OF h1 h2 h3, of "[1 / 2, 1]"]
    by (simp only: t secs) simp
qed

text \<open>
  C6 as stated fails for the sum: the value \<open>2^-31\<close> seconds (a double, somewhat under
  half a nanosecond; its product with \<^verbatim>\<open>1e9\<close> is exact) is observed, and \<open>sum()\<close> is
  0 afterwards.
\<close>

theorem histogram_sum_counterexample:
  "hist_sum exact_arith (observe_all exact_arith [1 / 2147483648] (Histogram_new [1 / 2, 1])) = 0
   \<and> sum_list [1 / 2147483648 :: rat] \<noteq> 0"
proof -
  have part: "\<lfloor>(1953125 / 4194304 :: rat)\<rfloor> = 0"
    by (simp add: floor_eq_iff)
  have "static_cast_u64 (times_1e9 exact_arith (1 / 2147483648)) = 0"
    by (simp add: exact_arith_def static_cast_u64_def trunc_zero_def part)
  then show ?thesis
    by (simp add: hist_sum_def observe_def Histogram_new_def) (simp add: exact_arith_def)
qed

section \<open>Session manager\<close>

lemma prepare_inputs_acc:
  "prepare_inputs w ins (names, tensors) = Inr (names', tensors') \<Longrightarrow>
   names' = names @ map td_name ins \<and>
   length tensors' =
     length tensors + length (filter (\<lambda>i. float_data i \<noteq> [] \<or> int_data i \<noteq> []) ins)"
proof (induction ins arbitrary: names tensors)
  case Nil
  then show ?case by simp
next
  case (Cons inp rest)
  show ?case
    using Cons.prems
    by (auto split: if_splits sum.splits dest!: Cons.IH)
qed

lemma prepare_inputs_created:
  assumes "\<forall>i \<in> set ins. has_data i \<longrightarrow> (\<exists>t. create_tensor w i = Inr t)"
  shows "prepare_inputs w ins (names, tensors) =
           Inr (names @ map td_name ins,
                tensors @ map (projr \<circ> create_tensor w) (filter has_data ins))"
  using assms
proof (induction ins arbitrary: names tensors)
  case Nil
  then show ?case by simp
next
  case (Cons inp rest)
  have rest: "\<forall>i \<in> set rest. has_data i \<longrightarrow> (\<exists>t. create_tensor w i = Inr t)"
    using Cons.prems by simp
  note IH = Cons.IH [OF rest]
  show ?case
  proof (cases "has_data inp")
    case True
    with Cons.prems obtain t where t: "create_tensor w inp = Inr t"
      by auto
    show ?thesis
    proof (cases "float_data inp \<noteq> []")
      case float: True
      with t have "ort_create_float w (float_data inp) (shape inp) = Inr t"
        by (simp add: create_tensor_def)
      with float True t show ?thesis
        by (simp add: IH)
    next
      case False
      with True have int: "int_data inp \<noteq> []"
        by (simp add: has_data_def)
      from False t have "ort_create_int64 w (int_data inp) (shape inp) = Inr t"
        by (simp add: create_tensor_def)
      with False int True t show ?thesis
        by (simp add: IH)
    qed
  next
    case False
    then show ?thesis
      by (simp add: has_data_def IH)
  qed
qed

text \<open>
  C10. When every tensor the loop over the inputs makes is made without an
  exception, so that \<^verbatim>\<open>Session::Run\<close> is reached: \<^verbatim>\<open>run_inference\<close> calls it with the
  names of all inputs of the request, in order, and with the tensors of the inputs
  whose \<^verbatim>\<open>float_data\<close> or \<^verbatim>\<open>int_data\<close> is not empty, and with nothing for the other
  inputs; so for a request with an input that has neither, more names than tensors are
  passed.
\<close>

theorem run_inference_names_exceed_tensors:
  assumes "\<forall>i \<in> set (inputs req). has_data i \<longrightarrow> (\<exists>t. create_tensor w i = Inr t)"
  shows "run_inference_try w s req mi =
           (case ort_run w s (names_passed req) (tensors_passed w req) (output_names mi) of
              Inl e \<Rightarrow> Inl e
            | Inr output_tensors \<Rightarrow>
                Inr (map (\<lambda>(nm, t). extract_output nm t) (zip (output_names mi) output_tensors)))
       \<and> length (names_passed req) = length (inputs req)
       \<and> length (tensors_passed w req) = length (filter has_data (inputs req))
       \<and> ((\<exists>i \<in> set (inputs req). float_data i = [] \<and> int_data i = [])
            \<longrightarrow> length (tensors_passed w req) < length (names_passed req))"
proof -
  have call: "prepare_inputs w (inputs req) ([], []) =
                Inr (names_passed req, tensors_passed w req)"
    using prepare_inputs_created [OF assms, of "[]" "[]"]
    by (simp add: names_passed_def tensors_passed_def)
  have run: "run_inference_try w s req mi =
           (case ort_run w s (names_passed req) (tensors_passed w req) (output_names mi) of
              Inl e \<Rightarrow> Inl e
            | Inr output_tensors \<Rightarrow>
                Inr (map (\<lambda>(nm, t). extract_output nm t) (zip (output_names mi) output_tensors)))"
    by (simp add: run_inference_try_def call)
  have fewer: "length (filter has_data (inputs req)) < length (inputs req)"
    if "\<exists>i \<in> set (inputs req). float_data i = [] \<and> int_data i = []"
  proof -
    from that obtain i where "i \<in> set (inputs req)" and "\<not> has_data i"
      by (auto simp: has_data_def)
    then show ?thesis
      by (rule length_filter_less)
  qed
  show ?thesis
    using run fewer by (simp add: names_passed_def tensors_passed_def)
qed

theorem run_inference_names_exceed_tensors_witness:
  "names_passed mixed_request = [''x'', ''blob'']
   \<and> tensors_passed world_ok mixed_request = [FloatTensor [1, 2] [1, 2]]
   \<and> length (tensors_passed world_ok mixed_request) < length (names_passed mixed_request)
   \<and> run_inference_try world_ok echo_session mixed_request echo_info
       = Inr [extract_output ''y'' (FloatTensor [1, 2] [1, 2])]"
proof -
  have made: "\<forall>i \<in> set (inputs mixed_request).
                has_data i \<longrightarrow> (\<exists>t. create_tensor world_ok i = Inr t)"
    by (simp add: mixed_request_def create_tensor_def world_ok_def float_input_def
        raw_input_def has_data_def TensorData_new_def)
  have empty: "\<exists>i \<in> set (inputs mixed_request). float_data i = [] \<and> int_data i = []"
    by (simp add: mixed_request_def raw_input_def TensorData_new_def)
  have names: "names_passed mixed_request = [''x'', ''blob'']"
    by (simp add: names_passed_def mixed_request_def float_input_def raw_input_def)
  have tensors: "tensors_passed world_ok mixed_request = [FloatTensor [1, 2] [1, 2]]"
    by (simp add: tensors_passed_def mixed_request_def has_data_def create_tensor_def
        world_ok_def float_input_def raw_input_def TensorData_new_def)
  have out: "ort_run world_ok echo_session [''x'', ''blob''] [FloatTensor [1, 2] [1, 2]]
               (output_names echo_info) = Inr [FloatTensor [1, 2] [1, 2]]"
    by (simp add: world_ok_def echo_info_def)
  from run_inference_names_exceed_tensors [OF made, of echo_session echo_info] empty
  have "length (tensors_passed world_ok mixed_request) < length (names_passed mixed_request)"
    and "run_inference_try world_ok echo_session mixed_request echo_info
       = Inr [extract_output ''y'' (FloatTensor [1, 2] [1, 2])]"
    by (simp_all only: names tensors out) (simp_all add: echo_info_def)
  with names tensors show ?thesis
    by simp
qed



section \<open>Model registry\<close>

lemma load_model_false_unchanged:
  "ModelRegistry_load_model w reg pth nm = (False, reg') \<Longrightarrow> reg' = reg"
  by (auto simp: ModelRegistry_load_model_def split: sum.splits)

lemma reload_false_unchanged:
  "reload w reg nm = (False, reg') \<Longrightarrow> reg' = reg"
  by (auto simp: reload_def split: option.splits dest: load_model_false_unchanged)

text \<open>
  C7. When the load of the artifact of a registered model throws (the session manager
  fails, or the modification time cannot be read), \<^verbatim>\<open>reload\<close> returns \<^verbatim>\<open>false\<close> and the
  registry is the one before the call: the entry of the model is the previous one.
\<close>

theorem reload_failure_keeps_entry:
  assumes "reg nm = Some entry"
    and "SessionManager_load_model w (path (info entry)) nm = Inl e
         \<or> fs_last_write_time w (path (info entry)) = Inl e"
  shows "reload w reg nm = (False, reg)"
  using assms
  by (auto simp: reload_def ModelRegistry_load_model_def split: sum.splits)

theorem reload_failure_keeps_entry_witness:
  "echo_models ''m'' = Some echo_entry
   \<and> SessionManager_load_model world_failing_open (path (info echo_entry)) ''m''
       = Inl (OrtException ''bad model'')
   \<and> reload world_failing_open echo_models ''m'' = (False, echo_models)"
proof -
  have h1: "echo_models ''m'' = Some echo_entry"
    by (simp add: echo_models_def)
  have h2: "SessionManager_load_model world_failing_open (path (info echo_entry)) ''m''
       = Inl (OrtException ''bad model'')"
    by (simp add: SessionManager_load_model_def world_failing_open_def)
  from reload_failure_keeps_entry
    [of echo_models "''m''" echo_entry world_failing_open "OrtException ''bad model''"] h1 h2
  show ?thesis
    by simp
qed

section \<open>Batch executor\<close>

subsection \<open>Detaching and draining\<close>

lemma detach_loop_take_drop:
  "detach_loop k batch q = (batch @ take k q, drop k q)"
  by (induction k batch q rule: detach_loop.induct) simp_all

lemma drain_loop_all: "drain_loop remaining q = (remaining @ q, [])"
  by (induction q arbitrary: remaining) simp_all

lemma collect_batch_prefix:
  assumes "collect_batch cfg clk q n = (batch, q', n')"
  shows "q = batch @ q'" and "length batch \<le> unat (max_batch_size cfg)"
  using assms
  by (auto simp: collect_batch_def detach_loop_take_drop Let_def
      split: prod.splits if_splits)

subsection \<open>Grouping\<close>

lemma push_back_group_mset:
  "mset (concat (map snd (push_back_group p g))) = add_mset p (mset (concat (map snd g)))"
  by (induction g) auto

lemma group_batch_mset:
  "mset (concat (map snd (group_batch batch g))) = mset batch + mset (concat (map snd g))"
  by (induction batch arbitrary: g) (simp_all add: push_back_group_mset)

lemma by_model_mset: "mset (concat (map snd (by_model batch))) = mset batch"
  by (simp add: by_model_def group_batch_mset)

lemma concat_mset_perm:
  assumes "mset g' = mset (g :: by_model_map)"
  shows "mset (concat (map snd g')) = mset (concat (map snd g))"
proof -
  have "mset (concat (map snd h)) = sum_mset (image_mset (mset \<circ> snd) (mset h))"
    for h :: by_model_map
    by (induction h) simp_all
  then show ?thesis
    using assms by simp
qed

subsection \<open>Processing\<close>

lemma process_requests_append:
  "process_requests run_inf clk (xs @ ys) acc =
     process_requests run_inf clk ys (process_requests run_inf clk xs acc)"
proof (induction xs arbitrary: acc)
  case Nil
  then show ?case by simp
next
  case (Cons p xs)
  obtain cs n where acc: "acc = (cs, n)"
    by (cases acc)
  show ?case
    by (simp add: acc Cons.IH now_def Let_def split: prod.splits sum.splits)
qed

lemma process_groups_concat:
  "process_groups run_inf clk groups acc =
     process_requests run_inf clk (concat (map snd groups)) acc"
proof (induction groups arbitrary: acc)
  case Nil
  then show ?case by simp
next
  case (Cons g groups)
  obtain k reqs where g: "g = (k, reqs)"
    by (cases g)
  show ?case
    by (simp add: g Cons.IH process_requests_append)
qed

lemma process_requests_promises:
  "map fst (fst (process_requests run_inf clk reqs (cs, n))) = map fst cs @ map promise reqs"
  by (induction reqs arbitrary: cs n) (simp_all add: now_def Let_def split: prod.splits sum.splits)


lemma process_batch_unchanged [simp]:
  "pending_requests (process_batch run_inf clk ord st batch) = pending_requests st"
  "next_promise (process_batch run_inf clk ord st batch) = next_promise st"
  "running (process_batch run_inf clk ord st batch) = running st"
  "worker (process_batch run_inf clk ord st batch) = worker st"
  by (simp_all add: process_batch_def now_def Let_def split: prod.splits)

lemma process_batch_promises:
  "map fst (completions (process_batch run_inf clk ord st batch)) =
     map fst (completions st) @ map promise (dispatch_order ord batch)"
proof -
  obtain cs n where run:
    "process_requests run_inf clk (dispatch_order ord batch) (completions st, Suc (ticks st)) = (cs, n)"
    by (cases "process_requests run_inf clk (dispatch_order ord batch) (completions st, Suc (ticks st))")
  then have "completions (process_batch run_inf clk ord st batch) = cs"
    by (simp add: process_batch_def now_def Let_def process_groups_concat dispatch_order_def)
  moreover have "map fst cs = map fst (completions st) @ map promise (dispatch_order ord batch)"
    using process_requests_promises [of run_inf clk "dispatch_order ord batch" "completions st" "Suc (ticks st)"]
    by (simp add: run)
  ultimately show ?thesis
    by simp
qed

lemma dispatch_order_mset:
  "rearranges ord \<Longrightarrow> mset (dispatch_order ord batch) = mset batch"
  unfolding dispatch_order_def rearranges_def
  using concat_mset_perm [of "ord (by_model batch)" "by_model batch"] by_model_mset [of batch]
  by simp

lemma process_batch_mset:
  assumes "rearranges ord"
  shows "mset (map fst (completions (process_batch run_inf clk ord st batch))) =
           mset (map fst (completions st)) + mset (map promise batch)"
proof -
  have "mset (map promise (dispatch_order ord batch)) = mset (map promise batch)"
    using dispatch_order_mset [OF assms, of batch] by (metis mset_map)
  then show ?thesis
    by (simp add: process_batch_promises)
qed

subsection \<open>Every promise is accounted for\<close>

lemma accounted_new: "promises_accounted (BatchExecutor_new bs)"
  by (simp add: promises_accounted_def BatchExecutor_new_def)

lemma accounted_start: "promises_accounted st \<Longrightarrow> promises_accounted (start cfg st)"
  by (simp add: promises_accounted_def start_def)

lemma accounted_submit:
  "promises_accounted st \<Longrightarrow> promises_accounted (snd (submit cfg run_inf clk st req))"
  by (auto simp: promises_accounted_def submit_def now_def Let_def
      simp del: mset_upt split: prod.splits sum.splits)

lemma accounted_process_batch:
  assumes "rearranges ord"
    and "mset (map promise (batch @ q')) + mset (map fst (completions st)) = mset [0..<next_promise st]"
    and "pending_requests st = q'"
  shows "promises_accounted (process_batch run_inf clk ord st batch)"
  using assms(2,3) process_batch_mset [OF assms(1), of run_inf clk st batch]
  by (simp add: promises_accounted_def ac_simps)

lemma drain_remaining_pending [simp]:
  "pending_requests (drain_remaining run_inf clk ord st) = []"
  by (simp add: drain_remaining_def drain_loop_all Let_def)

lemma drain_remaining_flags [simp]:
  "next_promise (drain_remaining run_inf clk ord st) = next_promise st"
  "running (drain_remaining run_inf clk ord st) = running st"
  "worker (drain_remaining run_inf clk ord st) = worker st"
  by (simp_all add: drain_remaining_def drain_loop_all Let_def)

lemma accounted_drain:
  assumes "rearranges ord" and "promises_accounted st"
  shows "promises_accounted (drain_remaining run_inf clk ord st)"
proof (cases "pending_requests st = []")
  case True
  with assms(2) show ?thesis
    by (simp add: drain_remaining_def drain_loop_all promises_accounted_def Let_def)
next
  case False
  have "promises_accounted
          (process_batch run_inf clk ord (st\<lparr>pending_requests := []\<rparr>) (pending_requests st))"
    using assms(2)
    by (intro accounted_process_batch [OF assms(1), where q' = "[]"])
       (simp_all add: promises_accounted_def)
  with False show ?thesis
    by (simp add: drain_remaining_def drain_loop_all Let_def)
qed

lemma accounted_loop_body:
  assumes "rearranges ord" and "promises_accounted st"
  shows "promises_accounted (snd (loop_body cfg run_inf clk ord st))"
proof (cases "\<not> running st \<and> pending_requests st = []")
  case True
  with assms(2) show ?thesis
    by (simp add: loop_body_def)
next
  case False
  obtain batch q' n1 where cb:
    "collect_batch cfg clk (pending_requests st) (ticks st) = (batch, q', n1)"
    by (cases "collect_batch cfg clk (pending_requests st) (ticks st)")
  note pre = collect_batch_prefix(1) [OF cb]
  let ?st1 = "st\<lparr>pending_requests := q', ticks := n1\<rparr>"
  show ?thesis
  proof (cases "batch = []")
    case True
    with False cb pre assms(2) show ?thesis
      by (auto simp: loop_body_def promises_accounted_def)
  next
    case nonempty: False
    have "promises_accounted (process_batch run_inf clk ord ?st1 batch)"
      using assms(2) pre
      by (intro accounted_process_batch [OF assms(1), where q' = q'])
         (simp_all add: promises_accounted_def)
    with False cb nonempty show ?thesis
      by (auto simp: loop_body_def)
  qed
qed

lemma accounted_worker_flag [simp]:
  "promises_accounted (st\<lparr>worker := x\<rparr>) = promises_accounted st"
  "promises_accounted (st\<lparr>running := y\<rparr>) = promises_accounted st"
  by (simp_all add: promises_accounted_def)

lemma accounted_worker_exit:
  "rearranges ord \<Longrightarrow> promises_accounted st \<Longrightarrow>
   promises_accounted (worker_exit run_inf clk ord st)"
  by (simp add: worker_exit_def accounted_drain)

lemma accounted_worker_turn:
  assumes "rearranges ord" and "promises_accounted st"
  shows "promises_accounted (worker_turn cfg run_inf clk ord st)"
proof -
  obtain b st' where lb: "loop_body cfg run_inf clk ord st = (b, st')"
    by (cases "loop_body cfg run_inf clk ord st")
  then have "promises_accounted st'"
    using accounted_loop_body [OF assms, of cfg run_inf clk] by simp
  then show ?thesis
    using assms lb by (cases b) (simp_all add: worker_turn_def accounted_worker_exit)
qed

lemma accounted_stop:
  assumes "rearranges ord" and "promises_accounted st"
  shows "promises_accounted (stop cfg run_inf clk ord in_body st)"
proof -
  have "promises_accounted (snd (loop_body cfg run_inf clk ord (st\<lparr>running := False\<rparr>)))"
    by (rule accounted_loop_body [OF assms(1)]) (simp add: assms(2))
  then show ?thesis
    using assms by (simp add: stop_def Let_def accounted_worker_exit)
qed

lemma accounted_step:
  "rearranges ord \<Longrightarrow> promises_accounted st \<Longrightarrow>
   promises_accounted (step cfg run_inf clk ord st ev)"
  by (cases ev)
     (simp_all add: accounted_start accounted_submit accounted_worker_turn accounted_stop)

lemma accounted_run_events:
  "rearranges ord \<Longrightarrow> promises_accounted st \<Longrightarrow>
   promises_accounted (run_events cfg run_inf clk ord evs st)"
  unfolding run_events_def
  by (induction evs arbitrary: st) (simp_all add: accounted_step)

subsection \<open>Start, stop and the worker\<close>

lemma submit_flags [simp]:
  "running (snd (submit cfg run_inf clk st req)) = running st"
  "worker (snd (submit cfg run_inf clk st req)) = worker st"
  by (simp_all add: submit_def now_def Let_def split: prod.splits sum.splits)

lemma loop_body_flags [simp]:
  "running (snd (loop_body cfg run_inf clk ord st)) = running st"
  "worker (snd (loop_body cfg run_inf clk ord st)) = worker st"
  by (simp_all add: loop_body_def Let_def split: prod.splits)

lemma worker_exit_fields [simp]:
  "running (worker_exit run_inf clk ord st) = running st"
  "worker (worker_exit run_inf clk ord st) = Exited"
  "pending_requests (worker_exit run_inf clk ord st) = []"
  by (simp_all add: worker_exit_def)

lemma loop_body_running: "running st \<Longrightarrow> fst (loop_body cfg run_inf clk ord st) = False"
  by (simp add: loop_body_def Let_def split: prod.splits)

lemma running_looping_step:
  assumes "running st \<longrightarrow> worker st = Looping"
  shows "running (step cfg run_inf clk ord st ev) \<longrightarrow>
         worker (step cfg run_inf clk ord st ev) = Looping"
proof (cases ev)
  case Start
  with assms show ?thesis by (simp add: start_def)
next
  case (Submit req)
  with assms show ?thesis by simp
next
  case WorkerTurn
  obtain b st' where lb: "loop_body cfg run_inf clk ord st = (b, st')"
    by (cases "loop_body cfg run_inf clk ord st")
  have "running st' = running st" "worker st' = worker st"
    using loop_body_flags [of cfg run_inf clk ord st] lb by simp_all
  moreover have "running st \<Longrightarrow> b = False"
    using loop_body_running [of st cfg run_inf clk ord] lb by simp
  ultimately show ?thesis
    using assms WorkerTurn lb by (cases b) (auto simp: worker_turn_def)
next
  case (Stop in_body)
  with assms show ?thesis by (simp add: stop_def Let_def)
qed

lemma running_looping_run_events:
  "running st \<longrightarrow> worker st = Looping \<Longrightarrow>
   running (run_events cfg run_inf clk ord evs st) \<longrightarrow>
   worker (run_events cfg run_inf clk ord evs st) = Looping"
  unfolding run_events_def
proof (induction evs arbitrary: st)
  case Nil
  then show ?case by simp
next
  case (Cons ev evs)
  show ?case
    using Cons.IH [OF running_looping_step [OF Cons.prems, of cfg run_inf clk ord ev]]
    by simp
qed

lemma stop_empties_queue:
  "running st \<Longrightarrow> worker st = Looping \<Longrightarrow>
   pending_requests (stop cfg run_inf clk ord in_body st) = []"
  by (simp add: stop_def Let_def)

lemma run_events_snoc:
  "run_events cfg run_inf clk ord (evs @ [ev]) st =
     step cfg run_inf clk ord (run_events cfg run_inf clk ord evs st) ev"
  by (simp add: run_events_def)

subsection \<open>With batching disabled nothing is queued\<close>

lemma disabled_step:
  assumes "\<not> enabled cfg"
    and "pending_requests st = [] \<and> worker st = NotStarted"
  shows "pending_requests (step cfg run_inf clk ord st ev) = [] \<and>
         worker (step cfg run_inf clk ord st ev) = NotStarted"
  using assms
  by (cases ev)
     (auto simp: start_def submit_def now_def Let_def worker_turn_def stop_def
       split: prod.splits sum.splits)

lemma disabled_run_events:
  "\<not> enabled cfg \<Longrightarrow> pending_requests st = [] \<and> worker st = NotStarted \<Longrightarrow>
   pending_requests (run_events cfg run_inf clk ord evs st) = []"
  unfolding run_events_def
proof (induction evs arbitrary: st)
  case Nil
  then show ?case by simp
next
  case (Cons ev evs)
  show ?case
    using Cons.IH [OF Cons.prems(1) disabled_step [OF Cons.prems, of run_inf clk ord ev]]
    by simp
qed

subsection \<open>Exactly once\<close>

lemma accounted_at_most_once:
  assumes "promises_accounted st"
  shows "count_list (map fst (completions st)) i \<le> 1"
proof -
  have "count (mset (map fst (completions st))) i \<le> count (mset [0..<next_promise st]) i"
    using assms unfolding promises_accounted_def
    by (metis le_add2 count_union)
  also have "\<dots> \<le> 1"
    by (simp add: count_mset_set')
  finally show ?thesis
    by (simp only: count_mset)
qed

lemma accounted_all_fulfilled:
  assumes "promises_accounted st" and "pending_requests st = []"
  shows "all_fulfilled_once st"
proof -
  have eq: "mset (map fst (completions st)) = mset [0..<next_promise st]"
    using assms by (simp add: promises_accounted_def)
  have "count_list (map fst (completions st)) i = 1" if "i < next_promise st" for i
  proof -
    have "count (mset (map fst (completions st))) i = count (mset [0..<next_promise st]) i"
      by (simp only: eq)
    also have "\<dots> = 1"
      using that by simp
    finally show ?thesis
      by (simp only: count_mset)
  qed
  then show ?thesis
    by (simp add: all_fulfilled_once_def fulfilled_once_def list_all_iff)
qed

text \<open>
  A turn of the worker that flushes gives their values to the promises of the requests
  it detaches: the first \<^verbatim>\<open>max_batch_size\<close> of the queue.
\<close>

lemma worker_turn_fulfils_flushed:
  assumes "rearranges ord"
    and "running st" and "worker st = Looping"
    and "unat (min_batch_size cfg) \<le> length (pending_requests st)"
    and "p \<in> set (take (unat (max_batch_size cfg)) (pending_requests st))"
  shows "promise p \<in> set (map fst (completions (worker_turn cfg run_inf clk ord st)))"
proof -
  let ?q = "pending_requests st"
  let ?batch = "take (unat (max_batch_size cfg)) ?q"
  have cb: "collect_batch cfg clk ?q (ticks st) = (?batch, drop (unat (max_batch_size cfg)) ?q, ticks st)"
    using assms(4)
    by (simp add: collect_batch_def detach_loop_take_drop min_def take_all drop_all Let_def)
  have ne: "?batch \<noteq> []"
    using assms(5) by (cases "?batch") simp_all
  let ?st1 = "st\<lparr>pending_requests := drop (unat (max_batch_size cfg)) ?q, ticks := ticks st\<rparr>"
  have turn: "worker_turn cfg run_inf clk ord st = process_batch run_inf clk ord ?st1 ?batch"
    using assms(2,3) cb ne by (simp add: worker_turn_def loop_body_def)
  have "promise p \<in> set (map promise (dispatch_order ord ?batch))"
  proof -
    have "set (dispatch_order ord ?batch) = set ?batch"
      using dispatch_order_mset [OF assms(1), of ?batch] by (rule mset_eq_setD)
    with assms(5) show ?thesis
      by simp
  qed
  then show ?thesis
    by (simp only: turn process_batch_promises set_append) simp
qed

text \<open>
  C2 (as amended). Whatever the handler threads, the worker and \<^verbatim>\<open>start()\<close> and
  \<^verbatim>\<open>stop()\<close> do, in any order: no promise is ever given two values; with batching
  disabled every future handed out has been fulfilled exactly once; and when
  \<^verbatim>\<open>stop()\<close> is called on a running executor, every future handed out until then has
  been fulfilled exactly once when it returns (by a turn of the worker or by the
  drain).
\<close>

theorem submit_fulfilled_exactly_once:
  assumes "rearranges ord"
  shows "(\<forall>i. count_list (map fst (completions
              (run_events cfg run_inf clk ord evs (BatchExecutor_new bs)))) i \<le> 1)
       \<and> (\<not> enabled cfg \<longrightarrow>
            all_fulfilled_once (run_events cfg run_inf clk ord evs (BatchExecutor_new bs)))
       \<and> (running (run_events cfg run_inf clk ord evs (BatchExecutor_new bs)) \<longrightarrow>
            all_fulfilled_once
              (run_events cfg run_inf clk ord (evs @ [Stop in_body]) (BatchExecutor_new bs)))"
proof -
  let ?new = "BatchExecutor_new bs"
  let ?st = "run_events cfg run_inf clk ord evs ?new"
  have acc: "promises_accounted (run_events cfg run_inf clk ord es ?new)" for es
    by (rule accounted_run_events [OF assms accounted_new])
  have once: "count_list (map fst (completions ?st)) i \<le> 1" for i
    by (rule accounted_at_most_once [OF acc])
  have off: "all_fulfilled_once ?st" if "\<not> enabled cfg"
  proof -
    have "pending_requests ?st = []"
      by (rule disabled_run_events [OF that]) (simp add: BatchExecutor_new_def)
    with acc show ?thesis
      by (rule accounted_all_fulfilled)
  qed
  have stopped: "all_fulfilled_once (run_events cfg run_inf clk ord (evs @ [Stop in_body]) ?new)"
    if run: "running ?st"
  proof -
    have "running ?st \<longrightarrow> worker ?st = Looping"
      by (rule running_looping_run_events) (simp add: BatchExecutor_new_def)
    with run have "worker ?st = Looping"
      by simp
    with run have "pending_requests (stop cfg run_inf clk ord in_body ?st) = []"
      by (rule stop_empties_queue)
    then have "pending_requests (run_events cfg run_inf clk ord (evs @ [Stop in_body]) ?new) = []"
      by (simp add: run_events_snoc)
    with acc show ?thesis
      by (rule accounted_all_fulfilled)
  qed
  show ?thesis
    using once off stopped by blast
qed

lemma rearranges_rev: "rearranges rev"
  by (simp add: rearranges_def)

theorem submit_fulfilled_exactly_once_witness:
  "rearranges rev
   \<and> running (run_events batching_on (echo_inference (\<lambda>k. k)) (\<lambda>k. k) rev
        [Start, Submit echo_request, Submit echo_request] (BatchExecutor_new []))
   \<and> all_fulfilled_once (run_events batching_on (echo_inference (\<lambda>k. k)) (\<lambda>k. k) rev
        ([Start, Submit echo_request, Submit echo_request] @ [Stop False]) (BatchExecutor_new []))"
proof -
  have run: "running (run_events batching_on (echo_inference (\<lambda>k. k)) (\<lambda>k. k) rev
        [Start, Submit echo_request, Submit echo_request] (BatchExecutor_new []))"
    by (simp add: run_events_def start_def batching_on_def BatchExecutor_new_def)
  from submit_fulfilled_exactly_once [OF rearranges_rev, of batching_on
      "echo_inference (\<lambda>k. k)" "\<lambda>k. k"
      "[Start, Submit echo_request, Submit echo_request]" "[]" False]
    run rearranges_rev
  show ?thesis
    by blast
qed

text \<open>
  C2 as stated fails for a request submitted when batching is enabled and no worker
  is running: after \<^verbatim>\<open>stop()\<close> has returned (in \<^verbatim>\<open>main\<close> it is called before the HTTP
  server is stopped) \<^verbatim>\<open>submit\<close> still queues the request, and neither a turn of
  the worker nor another \<^verbatim>\<open>stop()\<close> takes it from the queue.
\<close>

theorem submit_after_stop_counterexample:
  "\<not> all_fulfilled_once
       (run_events batching_on (echo_inference (\<lambda>k. k)) (\<lambda>k. k) rev
          [Start, Stop False, Submit echo_request, WorkerTurn, Stop False]
          (BatchExecutor_new []))"
  by (simp add: run_events_def start_def stop_def worker_exit_def drain_remaining_def
      submit_def now_def worker_turn_def batching_on_def BatchExecutor_new_def
      all_fulfilled_once_def fulfilled_once_def Let_def)

subsection \<open>Batch sizes\<close>

lemma process_batch_records_size:
  "batch_sizes (metrics (process_batch run_inf clk ord st batch)) =
     (let pushed = batch_sizes (metrics st) @ [of_nat (length batch)]
      in if 1000 < length pushed then tl pushed else pushed)"
  by (simp add: process_batch_def record_batch_def now_def Let_def split: prod.splits)

lemma collect_batch_takes_prefix:
  assumes "collect_batch cfg clk q n = (batch, q', n')"
  shows "(batch = [] \<and> q' = q)
       \<or> (batch = take (unat (max_batch_size cfg)) q \<and> q' = drop (unat (max_batch_size cfg)) q)"
  using assms
  by (auto simp: collect_batch_def detach_loop_take_drop Let_def min_def
      split: prod.splits if_splits)

lemma drain_remaining_one_batch:
  "pending_requests st \<noteq> [] \<Longrightarrow>
   drain_remaining run_inf clk ord st =
     process_batch run_inf clk ord (st\<lparr>pending_requests := []\<rparr>) (pending_requests st)"
  by (simp add: drain_remaining_def drain_loop_all Let_def)

lemma drain_remaining_records_queue_length:
  "pending_requests st \<noteq> [] \<Longrightarrow> batch_sizes (metrics st) = [] \<Longrightarrow>
   batch_sizes (metrics (drain_remaining run_inf clk ord st)) =
     [of_nat (length (pending_requests st))]"
  by (simp add: drain_remaining_one_batch process_batch_records_size)

text \<open>
  C9 is what the drain should do and does not. Here \<^verbatim>\<open>max_batch_size = 2\<close>. On a
  queue of three requests the executor loop detaches the first two, as its
  \<^verbatim>\<open>std::min\<close> says. But let the worker take a first request as a batch of one, let
  three more requests arrive before it comes back to its loop test, and let \<^verbatim>\<open>stop()\<close>
  be called then: \<^verbatim>\<open>drain_remaining\<close> hands all three to \<^verbatim>\<open>process_batch\<close> as one
  batch (the sizes \<^verbatim>\<open>process_batch\<close> gave to \<^verbatim>\<open>record_batch\<close> are 1 and 3).
\<close>

theorem drain_dispatches_batch_over_max:
  "unat (max_batch_size batching_on) = 2
   \<and> fst (collect_batch batching_on (\<lambda>k. k)
        [pending_for ''m'' 0 0, pending_for ''m'' 1 0, pending_for ''m'' 2 0] 0)
       = [pending_for ''m'' 0 0, pending_for ''m'' 1 0]
   \<and> length (pending_requests (run_events batching_on (echo_inference (\<lambda>k. k)) (\<lambda>k. k) rev
        [Start, Submit echo_request, WorkerTurn,
         Submit echo_request, Submit echo_request, Submit echo_request]
        (BatchExecutor_new []))) = 3
   \<and> batch_sizes (metrics (run_events batching_on (echo_inference (\<lambda>k. k)) (\<lambda>k. k) rev
        [Start, Submit echo_request, WorkerTurn,
         Submit echo_request, Submit echo_request, Submit echo_request, Stop False]
        (BatchExecutor_new []))) = [1, 3]"
proof -
  have loop: "fst (collect_batch batching_on (\<lambda>k. k)
        [pending_for ''m'' 0 0, pending_for ''m'' 1 0, pending_for ''m'' 2 0] 0)
       = [pending_for ''m'' 0 0, pending_for ''m'' 1 0]"
    by (simp add: collect_batch_def batching_on_def detach_loop_take_drop)
  have queued: "length (pending_requests (run_events batching_on (echo_inference (\<lambda>k. k))
        (\<lambda>k. k) rev
        [Start, Submit echo_request, WorkerTurn,
         Submit echo_request, Submit echo_request, Submit echo_request]
        (BatchExecutor_new []))) = 3"
    by (simp add: run_events_def start_def submit_def now_def batching_on_def
        BatchExecutor_new_def Let_def worker_turn_def loop_body_def collect_batch_def
        detach_loop_take_drop)
  have drained: "batch_sizes (metrics (run_events batching_on (echo_inference (\<lambda>k. k))
        (\<lambda>k. k) rev
        [Start, Submit echo_request, WorkerTurn,
         Submit echo_request, Submit echo_request, Submit echo_request, Stop False]
        (BatchExecutor_new []))) = [1, 3]"
    by (simp add: run_events_def start_def stop_def worker_exit_def drain_remaining_def
        drain_loop_all submit_def now_def batching_on_def BatchExecutor_new_def
        MetricsCollector_new_def process_batch_records_size Let_def
        worker_turn_def loop_body_def collect_batch_def detach_loop_take_drop)
  show ?thesis
    using loop queued drained by (simp add: batching_on_def)
qed

subsection \<open>Queue time\<close>

lemma process_requests_queue_times:
  "map (\<lambda>(pid, r). (pid, queue_time_ms r)) (fst (process_requests run_inf clk reqs (cs, n))) =
     map (\<lambda>(pid, r). (pid, queue_time_ms r)) cs @
     map (\<lambda>(p, k). (promise p, millis (enqueue_time p) (clk k)))
       (zip reqs (dispatch_ticks run_inf reqs n))"
proof (induction reqs arbitrary: cs n)
  case Nil
  then show ?case by simp
next
  case (Cons p reqs)
  obtain res n2 where r: "run_inf (request p) (Suc n) = (res, n2)"
    by (cases "run_inf (request p) (Suc n)")
  show ?case
    by (cases res) (simp_all add: r now_def Let_def Cons.IH InferenceResponse_new_def)
qed

lemma dispatch_ticks_lower:
  assumes "\<forall>r m. m \<le> snd (run_inf r m)"
  shows "\<forall>k \<in> set (dispatch_ticks run_inf reqs n). n \<le> k"
proof (induction reqs arbitrary: n)
  case Nil
  then show ?case by simp
next
  case (Cons p reqs)
  have "Suc n \<le> snd (run_inf (request p) (Suc n))"
    using assms by blast
  with Cons.IH [of "snd (run_inf (request p) (Suc n))"] show ?case
    by auto
qed

lemma process_batch_completions:
  "completions (process_batch run_inf clk ord st batch) =
     fst (process_requests run_inf clk (dispatch_order ord batch) (completions st, Suc (ticks st)))"
  by (simp add: process_batch_def now_def Let_def process_groups_concat dispatch_order_def
      split: prod.splits)

lemma process_requests_length:
  "length (fst (process_requests run_inf clk reqs (cs, n))) = length cs + length reqs"
  using process_requests_promises [of run_inf clk reqs cs n, THEN arg_cong, of length]
  by simp

lemma process_requests_prefix:
  "take (length cs) (fst (process_requests run_inf clk reqs (cs, n))) = cs"
  by (induction reqs arbitrary: cs n)
     (simp_all add: now_def Let_def split: prod.splits sum.splits,
      (metis append_eq_conv_conj append.assoc)+)


lemma registry_ticks:
  "m \<le> snd (ModelRegistry_run_inference w clk reg r m)"
  by (simp add: ModelRegistry_run_inference_def SessionManager_run_inference_def now_def
      split: option.splits sum.splits exn.splits)

lemma echo_inference_ticks:
  "snd (echo_inference clk (request_for ''m'') m) = Suc (Suc m)"
  by (simp add: echo_inference_def ModelRegistry_run_inference_def echo_models_def
      SessionManager_run_inference_def now_def request_for_def echo_request_def
      run_inference_try_def world_ok_def float_input_def TensorData_new_def echo_entry_def)

text \<open>
  C3 (as amended). \<^verbatim>\<open>process_batch\<close> leaves the earlier completions as they are and
  adds one for each request of the batch, in dispatch order. The queue time of a
  request is the time from its \<^verbatim>\<open>enqueue_time\<close> to a clock reading of its own, made
  when its turn comes, after the registry calls of the requests before it: the reading
  is not the same for the requests of a batch. With a clock that does not go back it
  is not before the start of the dispatch (reading number \<open>ticks st\<close>).
\<close>

theorem queue_time_of_dispatched_requests:
  assumes "\<forall>r m. m \<le> snd (run_inf r m)" and "mono clk"
  shows "take (length (completions st)) (completions (process_batch run_inf clk ord st batch))
           = completions st
       \<and> map (\<lambda>(pid, r). (pid, queue_time_ms r))
           (drop (length (completions st)) (completions (process_batch run_inf clk ord st batch)))
           = map (\<lambda>(p, k). (promise p, millis (enqueue_time p) (clk k)))
               (zip (dispatch_order ord batch)
                    (dispatch_ticks run_inf (dispatch_order ord batch) (Suc (ticks st))))
       \<and> (\<forall>k \<in> set (dispatch_ticks run_inf (dispatch_order ord batch) (Suc (ticks st))).
            clk (ticks st) \<le> clk k)"
proof -
  let ?reqs = "dispatch_order ord batch"
  let ?out = "fst (process_requests run_inf clk ?reqs (completions st, Suc (ticks st)))"
  have keep: "take (length (completions st)) ?out = completions st"
    by (rule process_requests_prefix)
  have "map (\<lambda>(pid, r). (pid, queue_time_ms r)) (drop (length (completions st)) ?out)
          = drop (length (completions st)) (map (\<lambda>(pid, r). (pid, queue_time_ms r)) ?out)"
    by (simp add: drop_map)
  also have "\<dots> = map (\<lambda>(p, k). (promise p, millis (enqueue_time p) (clk k)))
                     (zip ?reqs (dispatch_ticks run_inf ?reqs (Suc (ticks st))))"
    by (simp add: process_requests_queue_times)
  finally have times:
    "map (\<lambda>(pid, r). (pid, queue_time_ms r)) (drop (length (completions st)) ?out)
       = map (\<lambda>(p, k). (promise p, millis (enqueue_time p) (clk k)))
           (zip ?reqs (dispatch_ticks run_inf ?reqs (Suc (ticks st))))" .
  have later: "clk (ticks st) \<le> clk k"
    if "k \<in> set (dispatch_ticks run_inf ?reqs (Suc (ticks st)))" for k
  proof -
    have "Suc (ticks st) \<le> k"
      using dispatch_ticks_lower [OF assms(1), of ?reqs "Suc (ticks st)"] that by blast
    then have "ticks st \<le> k"
      by simp
    with assms(2) show ?thesis
      by (rule monoD)
  qed
  show ?thesis
    using keep times later by (simp add: process_batch_completions)
qed

theorem queue_time_of_dispatched_requests_witness:
  "(\<forall>r m. m \<le> snd (echo_inference (\<lambda>k. k) r m)) \<and> mono (\<lambda>k :: nat. k)
   \<and> map (\<lambda>(pid, r). (pid, queue_time_ms r))
       (drop (length (completions (BatchExecutor_new [])))
          (completions (process_batch (echo_inference (\<lambda>k. k)) (\<lambda>k. k) rev (BatchExecutor_new [])
             [pending_for ''m'' 0 0, pending_for ''m'' 1 0])))
       = [(0, 1 / 1000000), (1, 4 / 1000000)]"
proof -
  let ?batch = "[pending_for ''m'' 0 0, pending_for ''m'' 1 0]"
  have h1: "\<forall>r m. m \<le> snd (echo_inference (\<lambda>k. k) r m)"
    by (simp add: echo_inference_def registry_ticks)
  have h2: "mono (\<lambda>k :: nat. k)"
    by (simp add: mono_def)
  have order: "dispatch_order rev ?batch = ?batch"
    by (simp add: dispatch_order_def by_model_def pending_for_def request_for_def)
  have req: "request (pending_for ''m'' pid t) = request_for ''m''" for pid t
    by (simp add: pending_for_def)
  have tk: "dispatch_ticks (echo_inference (\<lambda>k. k)) ?batch (Suc (ticks (BatchExecutor_new [])))
              = [1, 4]"
    by (simp add: req echo_inference_ticks BatchExecutor_new_def)
  have vals: "map (\<lambda>(p, k). (promise p, millis (enqueue_time p) k)) (zip ?batch [1, 4])
                = [(0, 1 / 1000000), (1, 4 / 1000000)]"
    by (simp add: pending_for_def millis_def)
  from queue_time_of_dispatched_requests [OF h1 h2, where ord = rev
      and st = "BatchExecutor_new []" and batch = ?batch]
  have "map (\<lambda>(pid, r). (pid, queue_time_ms r))
       (drop (length (completions (BatchExecutor_new [])))
          (completions (process_batch (echo_inference (\<lambda>k. k)) (\<lambda>k. k) rev (BatchExecutor_new [])
             ?batch)))
       = [(0, 1 / 1000000), (1, 4 / 1000000)]"
    by (simp only: order tk vals)
  with h1 h2 show ?thesis
    by blast
qed

text \<open>
  C3 as stated fails for the second request of a batch. Two requests for the same
  model, both enqueued at time 0, are dispatched at 10 ms; the registry call of the
  first takes 2 ms. The queue times are 10 ms and 12 ms, where dispatch-start minus
  \<^verbatim>\<open>enqueue_time\<close> is 10 ms for both.
\<close>

theorem queue_time_counterexample:
  "map (queue_time_ms \<circ> snd)
     (completions (process_batch (echo_inference clock_2ms) clock_2ms rev (BatchExecutor_new [])
        [pending_for ''m'' 0 0, pending_for ''m'' 1 0])) = [10, 12]
   \<and> millis (enqueue_time (pending_for ''m'' 1 0)) (clock_2ms (ticks (BatchExecutor_new []))) = 10"
proof -
  let ?batch = "[pending_for ''m'' 0 0, pending_for ''m'' 1 0]"
  let ?st = "process_batch (echo_inference clock_2ms) clock_2ms rev (BatchExecutor_new []) ?batch"
  have order: "dispatch_order rev ?batch = ?batch"
    by (simp add: dispatch_order_def by_model_def pending_for_def request_for_def)
  have req: "request (pending_for ''m'' pid t) = request_for ''m''" for pid t
    by (simp add: pending_for_def)
  have tk: "dispatch_ticks (echo_inference clock_2ms) ?batch (Suc 0) = [1, 4]"
    by (simp add: req echo_inference_ticks)
  have vals: "map (\<lambda>(p, k). (promise p, millis (enqueue_time p) (clock_2ms k))) (zip ?batch [1, 4])
                = [(0, 10), (1, 12)]"
    by (simp add: pending_for_def millis_def clock_2ms_def clock_of_def)
  have new_c: "completions (BatchExecutor_new []) = []"
    and new_t: "ticks (BatchExecutor_new []) = 0"
    by (simp_all add: BatchExecutor_new_def)
  have "map (\<lambda>(pid, r). (pid, queue_time_ms r)) (completions ?st)
          = map (\<lambda>(pid, r). (pid, queue_time_ms r)) (completions (BatchExecutor_new [])) @
            map (\<lambda>(p, k). (promise p, millis (enqueue_time p) (clock_2ms k)))
              (zip ?batch (dispatch_ticks (echo_inference clock_2ms) ?batch
                 (Suc (ticks (BatchExecutor_new [])))))"
    unfolding process_batch_completions order
    by (rule process_requests_queue_times)
  then have "map (\<lambda>(pid, r). (pid, queue_time_ms r)) (completions ?st)
          = map (\<lambda>(p, k). (promise p, millis (enqueue_time p) (clock_2ms k)))
              (zip ?batch (dispatch_ticks (echo_inference clock_2ms) ?batch (Suc 0)))"
    by (simp only: new_c new_t list.map append_Nil)
  then have "map (\<lambda>(pid, r). (pid, queue_time_ms r)) (completions ?st) = [(0, 10), (1, 12)]"
    by (simp only: tk vals)
  then have "map snd (map (\<lambda>(pid, r). (pid, queue_time_ms r)) (completions ?st)) = [10, 12]"
    by simp
  then have "map (queue_time_ms \<circ> snd) (completions ?st) = [10, 12]"
    by (simp add: comp_def case_prod_beta)
  moreover have "millis (enqueue_time (pending_for ''m'' 1 0))
                   (clock_2ms (ticks (BatchExecutor_new []))) = 10"
    by (simp add: pending_for_def millis_def clock_2ms_def clock_of_def BatchExecutor_new_def)
  ultimately show ?thesis
    by simp
qed

subsection \<open>Grouping by model\<close>

lemma push_back_group_keys:
  "map fst (push_back_group p g) =
     (if model_of p \<in> set (map fst g) then map fst g else map fst g @ [model_of p])"
  by (induction g) (force simp: model_of_def)+

lemma push_back_group_map_of:
  "map_of (push_back_group p g) k =
     (if k = model_of p
      then Some (case map_of g k of None \<Rightarrow> [p] | Some ps \<Rightarrow> ps @ [p])
      else map_of g k)"
  by (induction g) (auto simp: model_of_def)

lemma grouped_push_back:
  assumes "grouped g seen"
  shows "grouped (push_back_group p g) (seen @ [p])"
proof -
  have d: "distinct (map fst g)"
    and m: "\<And>k. map_of g k =
              (if k \<in> model_of ` set seen then Some (filter (\<lambda>p. model_of p = k) seen)
               else None)"
    using assms by (simp_all add: grouped_def)
  have keys: "set (map fst g) = model_of ` set seen"
  proof -
    have "k \<in> set (map fst g) \<longleftrightarrow> k \<in> model_of ` set seen" for k
      using m [of k] by (metis map_of_eq_None_iff option.distinct(1) set_map)
    then show ?thesis
      by blast
  qed
  have "distinct (map fst (push_back_group p g))"
    using d by (simp add: push_back_group_keys)
  moreover have "map_of (push_back_group p g) k =
      (if k \<in> model_of ` set (seen @ [p])
       then Some (filter (\<lambda>q. model_of q = k) (seen @ [p])) else None)" for k
  proof (cases "k = model_of p")
    case True
    have "filter (\<lambda>q. model_of q = k) seen = []" if "k \<notin> model_of ` set seen"
      using that by (auto simp: filter_empty_conv)
    then show ?thesis
      using True m [of k] by (simp add: push_back_group_map_of)
  next
    case False
    then show ?thesis
      using m [of k] by (auto simp: push_back_group_map_of)
  qed
  ultimately show ?thesis
    by (simp add: grouped_def)
qed

lemma grouped_group_batch:
  "grouped g seen \<Longrightarrow> grouped (group_batch batch g) (seen @ batch)"
proof (induction batch arbitrary: g seen)
  case Nil
  then show ?case by simp
next
  case (Cons p batch)
  from Cons.IH [OF grouped_push_back [OF Cons.prems, of p]] show ?case
    by simp
qed

lemma grouped_by_model: "grouped (by_model batch) batch"
  using grouped_group_batch [of "[]" "[]" batch]
  by (simp add: by_model_def grouped_def)

lemma group_batch_first_seen:
  "map fst (group_batch batch g) = first_seen (map fst g) (map model_of batch)"
  by (induction batch arbitrary: g) (simp_all add: push_back_group_keys)

lemma grouped_member:
  assumes "grouped g seen" and "(k, ps) \<in> set g"
  shows "ps = filter (\<lambda>p. model_of p = k) seen \<and> ps \<noteq> []"
proof -
  have "distinct (map fst g)"
    using assms(1) by (simp add: grouped_def)
  then have "map_of g k = Some ps"
    using assms(2) by (rule map_of_is_SomeI)
  moreover have "map_of g k =
      (if k \<in> model_of ` set seen then Some (filter (\<lambda>p. model_of p = k) seen) else None)"
    using assms(1) by (simp add: grouped_def)
  ultimately have in_seen: "k \<in> model_of ` set seen"
    and eq: "ps = filter (\<lambda>p. model_of p = k) seen"
    by (simp_all split: if_splits)
  from in_seen have "filter (\<lambda>p. model_of p = k) seen \<noteq> []"
    by (auto simp: filter_empty_conv)
  with eq show ?thesis
    by simp
qed

lemma grouped_keys:
  assumes "grouped g seen"
  shows "set (map fst g) = model_of ` set seen"
proof -
  have "k \<in> set (map fst g) \<longleftrightarrow> k \<in> model_of ` set seen" for k
    using assms unfolding grouped_def
    by (metis map_of_eq_None_iff option.distinct(1) set_map)
  then show ?thesis
    by blast
qed

text \<open>
  C4 (as amended). \<^verbatim>\<open>process_batch\<close> makes one group for each model name of the
  batch; the group of a name holds the requests of the batch for that name in their
  arrival order; the groups are visited in the iteration order of the hash map
  (\<open>ord\<close>), and the promises receive their values in that order, group after group.
\<close>

theorem process_batch_grouping:
  assumes "rearranges ord"
  shows "(\<forall>(k, ps) \<in> set (ord (by_model batch)).
            ps = filter (\<lambda>p. model_of p = k) batch \<and> ps \<noteq> [])
       \<and> distinct (map fst (ord (by_model batch)))
       \<and> set (map fst (ord (by_model batch))) = model_of ` set batch
       \<and> map fst (completions (process_batch run_inf clk ord st batch)) =
           map fst (completions st) @ map promise (concat (map snd (ord (by_model batch))))"
proof -
  have perm: "mset (ord (by_model batch)) = mset (by_model batch)"
    using assms by (simp add: rearranges_def)
  then have same: "set (ord (by_model batch)) = set (by_model batch)"
    by (rule mset_eq_setD)
  have g: "grouped (by_model batch) batch"
    by (rule grouped_by_model)
  have members: "\<forall>(k, ps) \<in> set (ord (by_model batch)).
                   ps = filter (\<lambda>p. model_of p = k) batch \<and> ps \<noteq> []"
    using grouped_member [OF g] same by blast
  have "mset (map fst (ord (by_model batch))) = mset (map fst (by_model batch))"
    using perm by (metis mset_map)
  moreover have "distinct (map fst (by_model batch))"
    using g by (simp add: grouped_def)
  ultimately have dist: "distinct (map fst (ord (by_model batch)))"
    by (metis mset_eq_imp_distinct_iff)
  have keys: "set (map fst (ord (by_model batch))) = model_of ` set batch"
    using grouped_keys [OF g] same by simp
  show ?thesis
    using members dist keys process_batch_promises [of run_inf clk ord st batch]
    by (simp add: dispatch_order_def)
qed

theorem process_batch_grouping_witness:
  "rearranges rev
   \<and> map fst (completions (process_batch (echo_inference (\<lambda>k. k)) (\<lambda>k. k) rev
        (BatchExecutor_new [])
        [pending_for ''a'' 0 0, pending_for ''b'' 1 0, pending_for ''a'' 2 0]))
       = [1, 0, 2]"
proof -
  have order: "concat (map snd (rev (by_model
        [pending_for ''a'' 0 0, pending_for ''b'' 1 0, pending_for ''a'' 2 0])))
      = [pending_for ''b'' 1 0, pending_for ''a'' 0 0, pending_for ''a'' 2 0]"
    by (simp add: by_model_def pending_for_def request_for_def)
  have "map fst (completions (process_batch (echo_inference (\<lambda>k. k)) (\<lambda>k. k) rev
        (BatchExecutor_new [])
        [pending_for ''a'' 0 0, pending_for ''b'' 1 0, pending_for ''a'' 2 0]))
       = map fst (completions (BatchExecutor_new [])) @
         map promise [pending_for ''b'' 1 0, pending_for ''a'' 0 0, pending_for ''a'' 2 0]"
    using process_batch_grouping [OF rearranges_rev, of
        "[pending_for ''a'' 0 0, pending_for ''b'' 1 0, pending_for ''a'' 2 0]"
        "echo_inference (\<lambda>k. k)" "\<lambda>k. k" "BatchExecutor_new []"]
    by (simp only: order)
  then show ?thesis
    using rearranges_rev by (simp add: BatchExecutor_new_def pending_for_def)
qed

text \<open>
  C4 as stated fails for the order of the groups. The groups are the entries of a
  \<^verbatim>\<open>std::unordered_map\<close>; an iteration that returns the entries last inserted first
  (as a hash table that links a new node at the head of its list does) visits the
  group of model \<open>b\<close> before the group of model \<open>a\<close>, seen first.
\<close>

theorem group_order_counterexample:
  "map model_of (dispatch_order rev [pending_for ''a'' 0 0, pending_for ''b'' 1 0])
     = [''b'', ''a'']
   \<and> first_seen [] (map model_of [pending_for ''a'' 0 0, pending_for ''b'' 1 0])
     = [''a'', ''b'']
   \<and> map fst (completions (process_batch (echo_inference (\<lambda>k. k)) (\<lambda>k. k) rev
        (BatchExecutor_new []) [pending_for ''a'' 0 0, pending_for ''b'' 1 0])) = [1, 0]"
proof -
  have order: "dispatch_order rev [pending_for ''a'' 0 0, pending_for ''b'' 1 0]
                 = [pending_for ''b'' 1 0, pending_for ''a'' 0 0]"
    by (simp add: dispatch_order_def by_model_def pending_for_def request_for_def)
  have names: "map model_of (dispatch_order rev [pending_for ''a'' 0 0, pending_for ''b'' 1 0])
                 = [''b'', ''a'']"
    by (simp only: order) (simp add: pending_for_def model_of_def request_for_def)
  have seen: "first_seen [] (map model_of [pending_for ''a'' 0 0, pending_for ''b'' 1 0])
                = [''a'', ''b'']"
    by (simp add: pending_for_def model_of_def request_for_def)
  have "map fst (completions (process_batch (echo_inference (\<lambda>k. k)) (\<lambda>k. k) rev
        (BatchExecutor_new []) [pending_for ''a'' 0 0, pending_for ''b'' 1 0]))
      = map fst (completions (BatchExecutor_new [])) @
        map promise [pending_for ''b'' 1 0, pending_for ''a'' 0 0]"
    by (simp only: process_batch_promises order)
  then have "map fst (completions (process_batch (echo_inference (\<lambda>k. k)) (\<lambda>k. k) rev
        (BatchExecutor_new []) [pending_for ''a'' 0 0, pending_for ''b'' 1 0])) = [1, 0]"
    by (simp add: BatchExecutor_new_def pending_for_def)
  with names seen show ?thesis
    by blast
qed

section \<open>Configuration\<close>

lemma narrow_sign_extended: "ucast (scast (x :: 32 word) :: 64 word) = x"
  by (rule bit_word_eqI) (auto simp: bit_simps)

lemma narrow_zero_extended: "ucast (ucast (x :: 32 word) :: 64 word) = x"
  by (rule bit_word_eqI) (auto simp: bit_simps)

lemma get_all_strings: "get_all get_string (map JString xs) = Inr xs"
  by (induction xs) simp_all


lemma parse_server_to_json: "parse_server (to_json c) d = Inr (server c)"
  by (simp add: parse_server_def to_json_def field_def bind_exn_def narrow_sign_extended)

lemma parse_inference_to_json:
  "parse_inference (to_json c) d =
     Inr ((inference c)\<lparr>intra_op_threads := intra_op_threads d,
            inter_op_threads := inter_op_threads d,
            graph_optimization := graph_optimization d\<rparr>)"
  by (simp add: parse_inference_def to_json_def field_def bind_exn_def narrow_sign_extended
      get_all_strings)

lemma parse_batching_to_json:
  "parse_batching (to_json c) d =
     Inr ((batching c)\<lparr>min_batch_size := min_batch_size d,
            adaptive_sizing := adaptive_sizing d\<rparr>)"
  by (simp add: parse_batching_def to_json_def field_def bind_exn_def narrow_zero_extended)

lemma parse_models_to_json:
  "parse_models (to_json c) d =
     Inr ((models c)\<lparr>watch_interval_ms := watch_interval_ms d, preload := preload d\<rparr>)"
  by (simp add: parse_models_def to_json_def field_def bind_exn_def)

lemma parse_metrics_to_json:
  "parse_metrics (to_json c) d =
     Inr ((metrics_cfg c)\<lparr>latency_buckets := latency_buckets d\<rparr>)"
  by (simp add: parse_metrics_def to_json_def field_def bind_exn_def)

lemma parse_logging_to_json: "parse_logging (to_json c) d = Inr d"
  by (simp add: parse_logging_def to_json_def)

text \<open>
  C5 (as amended). Reading back what \<^verbatim>\<open>to_json\<close> wrote gives the configuration with
  the fields that \<^verbatim>\<open>to_json\<close> writes (\<^verbatim>\<open>server.*\<close>; \<^verbatim>\<open>inference.providers\<close>,
  \<^verbatim>\<open>gpu_device_id\<close>, \<^verbatim>\<open>memory_limit_mb\<close>; \<^verbatim>\<open>batching.enabled\<close>, \<^verbatim>\<open>max_batch_size\<close>,
  \<^verbatim>\<open>max_wait_ms\<close>; \<^verbatim>\<open>models.directory\<close>, \<^verbatim>\<open>hot_reload\<close>; \<^verbatim>\<open>metrics.enabled\<close>, \<^verbatim>\<open>path\<close>)
  unchanged and every other field at its built-in default; so it gives the
  configuration itself exactly when those other fields hold their defaults.
\<close>

theorem parse_json_of_to_json:
  "parse_json (to_json c) = Inr (written_fields c)
   \<and> (parse_json (to_json c) = Inr c \<longleftrightarrow> written_fields c = c)"
proof -
  have "parse_json (to_json c) = Inr (written_fields c)"
    by (simp add: parse_json_def bind_exn_def parse_server_to_json parse_inference_to_json
        parse_batching_to_json parse_models_to_json parse_metrics_to_json parse_logging_to_json
        written_fields_def Config_default_def InferenceConfig_default_def
        BatchingConfig_default_def ModelsConfig_default_def)
  then show ?thesis
    by simp
qed

text \<open>
  C5 as stated fails for every field that is not written: a configuration whose log
  level is \<open>debug\<close> comes back with the level \<open>info\<close>.
\<close>

theorem config_round_trip_counterexample:
  "parse_json (to_json (Config_default\<lparr>logging := LoggingConfig_default\<lparr>log_level := ''debug''\<rparr>\<rparr>))
     \<noteq> Inr (Config_default\<lparr>logging := LoggingConfig_default\<lparr>log_level := ''debug''\<rparr>\<rparr>)"
proof -
  have "parse_json (to_json (Config_default\<lparr>logging := LoggingConfig_default\<lparr>log_level := ''debug''\<rparr>\<rparr>))
     = Inr (written_fields (Config_default\<lparr>logging := LoggingConfig_default\<lparr>log_level := ''debug''\<rparr>\<rparr>))"
    by (simp add: parse_json_def bind_exn_def parse_server_to_json parse_inference_to_json
        parse_batching_to_json parse_models_to_json parse_metrics_to_json parse_logging_to_json
        written_fields_def Config_default_def InferenceConfig_default_def
        BatchingConfig_default_def ModelsConfig_default_def)
  moreover have "logging (written_fields (Config_default\<lparr>logging := LoggingConfig_default\<lparr>log_level := ''debug''\<rparr>\<rparr>))
     \<noteq> logging (Config_default\<lparr>logging := LoggingConfig_default\<lparr>log_level := ''debug''\<rparr>\<rparr>)"
    by (simp add: written_fields_def LoggingConfig_default_def)
  ultimately show ?thesis
    by auto
qed

section \<open>The inference handler\<close>

lemma handle_infer_status_200:
  assumes "json_parse req_body = Inr request_body"
    and "contains request_body ''inputs''"
    and "has reg nm"
    and "parse_inputs (items (at_key request_body ''inputs'')) = Inr ins"
    and "ModelRegistry_run_inference w clk reg
           \<lparr>model_name = nm, request_id = rid, inputs = ins, req_enqueue_time = 0\<rparr> n
         = (Inr infer_res, n')"
  shows "status (fst (handle_infer json_parse w clk reg False submit_get nm req_body rid n)) = 200"
  using assms by (simp add: handle_infer_def)


lemma failing_run_response:
  "ModelRegistry_run_inference world_failing_run (\<lambda>k. k) echo_models echo_request 0
     = (Inr (InferenceResponse_new\<lparr>success := False, error := ''invalid input'',
               inference_time_ms := 1 / 1000000\<rparr>), 2)"
  by (simp add: ModelRegistry_run_inference_def echo_models_def echo_request_def echo_entry_def
      SessionManager_run_inference_def run_inference_try_def world_failing_run_def
      world_ok_def float_input_def TensorData_new_def now_def millis_def)

lemma echo_body_inputs:
  "parse_inputs (items (at_key echo_body ''inputs'')) = Inr [float_input]"
  by (simp add: echo_body_def parse_input_def field_def bind_exn_def float_input_def
      TensorData_new_def)

text \<open>
  C1 is what the handler should do and does not. The model \<open>m\<close> is in the registry,
  the request is well formed, and \<^verbatim>\<open>Session::Run\<close> raises an \<^verbatim>\<open>Ort::Exception\<close>: the
  registry returns a response with \<^verbatim>\<open>success = false\<close>, and the handler, which never
  reads \<^verbatim>\<open>success\<close>, answers with status 200 and an empty \<^verbatim>\<open>outputs\<close> object.
\<close>

theorem handle_infer_backend_failure_is_200:
  "has echo_models ''m''
   \<and> fst (ModelRegistry_run_inference world_failing_run (\<lambda>k. k) echo_models echo_request 0)
       = Inr (InferenceResponse_new\<lparr>success := False, error := ''invalid input'',
                inference_time_ms := 1 / 1000000\<rparr>)
   \<and> fst (handle_infer (\<lambda>text. Inr echo_body) world_failing_run (\<lambda>k. k) echo_models False
            (echo_inference (\<lambda>k. k)) ''m'' ''body'' ''r1'' 0)
       = \<lparr>status = 200,
          body = JObject [(''model_name'', JString ''m''), (''outputs'', JObject []),
                          (''timing'', JObject [(''inference_ms'', JFloat (1 / 1000000)),
                                                (''queue_ms'', JFloat 0)])]\<rparr>"
proof -
  have present: "has echo_models ''m''"
    by (simp add: has_def echo_models_def)
  have req: "\<lparr>model_name = ''m'', request_id = ''r1'', inputs = [float_input],
              req_enqueue_time = 0\<rparr> = echo_request"
    by (simp add: echo_request_def)
  have "fst (handle_infer (\<lambda>text. Inr echo_body) world_failing_run (\<lambda>k. k) echo_models False
            (echo_inference (\<lambda>k. k)) ''m'' ''body'' ''r1'' 0)
       = \<lparr>status = 200,
          body = response_body ''m'' (InferenceResponse_new\<lparr>success := False,
                   error := ''invalid input'', inference_time_ms := 1 / 1000000\<rparr>)\<rparr>"
    using present
    by (simp add: handle_infer_def echo_body_inputs req failing_run_response)
       (simp add: echo_body_def)
  then show ?thesis
    using present
    by (simp add: failing_run_response response_body_def InferenceResponse_new_def)
qed

end
